theory Spec2Isabelle
  imports Main "HOL-Library.Multiset" "HOL-Library.AList"
begin

section \<open>Values, frames, exceptions and the log\<close>

text \<open>
  The Python values that occur in the program: what \<^verbatim>\<open>json.loads\<close> builds and what a
  cell of a frame read from a CSV file holds. \<open>PyNone\<close> is \<^verbatim>\<open>None\<close> (the JSON
  \<^verbatim>\<open>null\<close>); a number is kept as its literal text, so \<open>PyNum ''nan''\<close> is the NaN of an
  empty CSV cell; a dict is the list of its (key, value) pairs in the order they were
  read. Strings are byte strings (the UTF-8 encoding of the Python \<^verbatim>\<open>str\<close>).
\<close>

datatype pyobj =
    PyNone
  | PyBool bool
  | PyNum string
  | PyStr string
  | PyList "pyobj list"
  | PyDict "(string \<times> pyobj) list"

text \<open>
  A cell of a frame: an object as read from the file, or, in a column that went
  through \<^verbatim>\<open>pd.to_datetime\<close>, a timestamp or \<open>NaT\<close>.
\<close>

datatype cell = Obj pyobj | Timestamp int | NaT

text \<open>A \<^verbatim>\<open>DataFrame\<close>: the column labels and the rows, each row a list of cells.\<close>

record 'c frame =
  columns :: "string list"
  rows :: "'c list list"

type_synonym path = "string \<times> string"

datatype exn =
    JSONDecodeError
  | AttributeError
  | ValueError
  | RecursionError
  | KeyError string
  | FileNotFoundError path

datatype level = INFO | WARNING | ERROR

text \<open>The messages of the program, each with the values its f-string formats.\<close>

datatype message =
    Loaded_rows nat string
  | Error_loading_data exn
  | Removing_invalid_dates nat
  | Processed_data_shape nat nat
  | Error_parsing_period pyobj exn
  | No_CSV_files string
  | Processing_files nat
  | Not_enough_data_points string nat nat
  | Split_completed string
  | Train_info path nat
  | Initial_test_info path nat
  | Final_test_info path nat
  | Error_processing string exn

type_synonym logger = "(level \<times> message) list"

text \<open>
  The world the splitter runs in: the files (a directory listing, each file holding the
  frame that \<^verbatim>\<open>read_csv\<close> returns for it) and the log.
\<close>

record world =
  files :: "(path \<times> cell frame) list"
  logger :: logger

definition log_msg :: "level \<Rightarrow> message \<Rightarrow> world \<Rightarrow> world" where
  "log_msg l m w = w\<lparr>logger := logger w @ [(l, m)]\<rparr>"

definition read_csv :: "world \<Rightarrow> path \<Rightarrow> exn + cell frame" where
  "read_csv w p = (case map_of (files w) p of None \<Rightarrow> Inl (FileNotFoundError p) | Some df \<Rightarrow> Inr df)"

definition to_csv :: "cell frame \<Rightarrow> path \<Rightarrow> world \<Rightarrow> world" where
  "to_csv df p w = w\<lparr>files := AList.update p df (files w)\<rparr>"

section \<open>Frame operations used by the splitter\<close>

fun index_of :: "'a \<Rightarrow> 'a list \<Rightarrow> nat option" where
  "index_of c [] = None"
| "index_of c (x # xs) = (if x = c then Some 0 else map_option Suc (index_of c xs))"

text \<open>The cell of a row in column \<open>i\<close>; a row too short for the column reads as NaN.\<close>

definition cell_at :: "cell list \<Rightarrow> nat \<Rightarrow> cell" where
  "cell_at r i = (if i < length r then r ! i else Obj (PyNum ''nan''))"

text \<open>
  \<^verbatim>\<open>df["start_date"] = pd.to_datetime(df["start_date"], errors='coerce')\<close>.
  The library's conversion is a parameter: \<open>to_datetime col k\<close> is the timestamp it gives
  position \<open>k\<close> of the column \<open>col\<close>, \<open>None\<close> where the value does not parse (NaT).
  A frame without the column raises \<open>KeyError\<close>.
\<close>

definition coerce_cell :: "int option \<Rightarrow> cell" where
  "coerce_cell t = (case t of Some x \<Rightarrow> Timestamp x | None \<Rightarrow> NaT)"

definition coerce_start_date ::
  "(cell list \<Rightarrow> nat \<Rightarrow> int option) \<Rightarrow> cell frame \<Rightarrow> exn + (nat \<times> cell frame)" where
  "coerce_start_date to_datetime df =
     (case index_of ''start_date'' (columns df) of
        None \<Rightarrow> Inl (KeyError ''start_date'')
      | Some i \<Rightarrow>
          let col = map (\<lambda>r. cell_at r i) (rows df)
          in Inr (i, df\<lparr>rows := map (\<lambda>(k, r). r[i := coerce_cell (to_datetime col k)])
                                   (enumerate 0 (rows df))\<rparr>))"

text \<open>The sort key of a row: its timestamp in column \<open>i\<close>, \<open>None\<close> for NaT.\<close>

definition start_date_key :: "nat \<Rightarrow> cell list \<Rightarrow> int option" where
  "start_date_key i r = (case cell_at r i of Timestamp t \<Rightarrow> Some t | _ \<Rightarrow> None)"

text \<open>
  \<^verbatim>\<open>df.sort_values(by="start_date").reset_index(drop=True)\<close> with the defaults
  \<^verbatim>\<open>ascending=True, kind='quicksort', na_position='last'\<close>: the rows with a timestamp
  are reordered by the library's argsort of their keys, and the rows without one are put
  after them in their original order. The argsort (numpy's quicksort) is a parameter:
  \<open>argsort ks\<close> lists the positions of \<open>ks\<close> in the order of the sorted keys.
\<close>

definition sort_values :: "(int list \<Rightarrow> nat list) \<Rightarrow> ('r \<Rightarrow> int option) \<Rightarrow> 'r list \<Rightarrow> 'r list" where
  "sort_values argsort key xs =
     (let non_nans = filter (\<lambda>r. key r \<noteq> None) xs;
          nans = filter (\<lambda>r. key r = None) xs
      in map (\<lambda>j. non_nans ! j) (argsort (map (\<lambda>r. the (key r)) non_nans)) @ nans)"

text \<open>
  What the library promises of the argsort: a permutation of the positions that puts the
  keys in ascending order. It promises nothing on the order of equal keys.
\<close>

definition is_argsort :: "(int list \<Rightarrow> nat list) \<Rightarrow> bool" where
  "is_argsort argsort \<longleftrightarrow>
     (\<forall>ks. mset (argsort ks) = mset [0..<length ks] \<and> sorted (map (\<lambda>j. ks ! j) (argsort ks)))"

text \<open>Lines 158 to 161 of the splitter: coerce the column, then sort by it.\<close>

definition sorted_by_start_date ::
  "(int list \<Rightarrow> nat list) \<Rightarrow> (cell list \<Rightarrow> nat \<Rightarrow> int option) \<Rightarrow> cell frame \<Rightarrow> exn + (nat \<times> cell frame)" where
  "sorted_by_start_date argsort to_datetime df =
     (case coerce_start_date to_datetime df of
        Inl e \<Rightarrow> Inl e
      | Inr (i, cdf) \<Rightarrow> Inr (i, cdf\<lparr>rows := sort_values argsort (start_date_key i) (rows cdf)\<rparr>))"

text \<open>Python's slices \<^verbatim>\<open>xs[:-k]\<close> and \<^verbatim>\<open>xs[-k:]\<close> for \<open>k > 0\<close>.\<close>

definition iloc_upto_last :: "nat \<Rightarrow> 'c frame \<Rightarrow> 'c frame" where
  "iloc_upto_last k df = df\<lparr>rows := take (length (rows df) - k) (rows df)\<rparr>"

definition iloc_last :: "nat \<Rightarrow> 'c frame \<Rightarrow> 'c frame" where
  "iloc_last k df = df\<lparr>rows := drop (length (rows df) - k) (rows df)\<rparr>"

section \<open>The rolling forecast splitter\<close>

record rolling_forecast_splitter =
  input_dir :: string
  output_dir :: string

fun rfind :: "char \<Rightarrow> string \<Rightarrow> nat option" where
  "rfind c [] = None"
| "rfind c (x # xs) =
     (case rfind c xs of
        Some i \<Rightarrow> Some (Suc i)
      | None \<Rightarrow> if x = c then Some 0 else None)"

text \<open>\<^verbatim>\<open>Path.stem\<close>: the file name without its last suffix.\<close>

definition stem :: "string \<Rightarrow> string" where
  "stem name =
     (case rfind (CHR ''.'') name of
        Some i \<Rightarrow> if 0 < i \<and> i < length name - 1 then take i name else name
      | None \<Rightarrow> name)"

definition train_filename :: "rolling_forecast_splitter \<Rightarrow> path \<Rightarrow> path" where
  "train_filename self file_path = (output_dir self, stem (snd file_path) @ ''_train.csv'')"

definition initial_test_filename :: "rolling_forecast_splitter \<Rightarrow> path \<Rightarrow> path" where
  "initial_test_filename self file_path = (output_dir self, stem (snd file_path) @ ''_initial_test.csv'')"

definition final_test_filename :: "rolling_forecast_splitter \<Rightarrow> path \<Rightarrow> path" where
  "final_test_filename self file_path = (output_dir self, stem (snd file_path) @ ''_final_test.csv'')"

text \<open>
  \<^verbatim>\<open>_process_single_file\<close>. Every exception of the body is caught and logged as an
  error; the function returns nothing, so the model returns the new world.
\<close>

definition process_single_file ::
  "(int list \<Rightarrow> nat list) \<Rightarrow> (cell list \<Rightarrow> nat \<Rightarrow> int option) \<Rightarrow>
   rolling_forecast_splitter \<Rightarrow> path \<Rightarrow> nat \<Rightarrow> world \<Rightarrow> world" where
  "process_single_file argsort to_datetime self file_path min_data_points w =
     (case read_csv w file_path of
        Inl e \<Rightarrow> log_msg ERROR (Error_processing (snd file_path) e) w
      | Inr df0 \<Rightarrow>
          (case sorted_by_start_date argsort to_datetime df0 of
             Inl e \<Rightarrow> log_msg ERROR (Error_processing (snd file_path) e) w
           | Inr (i, df) \<Rightarrow>
               if length (rows df) < min_data_points
               then log_msg WARNING
                      (Not_enough_data_points (snd file_path) (length (rows df)) min_data_points) w
               else
                 let train_df = iloc_upto_last 8 df;
                     initial_test_df = iloc_last 8 df;
                     final_test_df = iloc_upto_last 4 initial_test_df;
                     w1 = to_csv train_df (train_filename self file_path) w;
                     w2 = to_csv initial_test_df (initial_test_filename self file_path) w1;
                     w3 = to_csv final_test_df (final_test_filename self file_path) w2;
                     w4 = log_msg INFO (Split_completed (snd file_path)) w3;
                     w5 = log_msg INFO (Train_info (train_filename self file_path)
                                          (length (rows train_df))) w4;
                     w6 = log_msg INFO (Initial_test_info (initial_test_filename self file_path)
                                          (length (rows initial_test_df))) w5
                 in log_msg INFO (Final_test_info (final_test_filename self file_path)
                                    (length (rows final_test_df))) w6))"

text \<open>\<^verbatim>\<open>input_dir.glob("*.csv")\<close>: the files of the directory whose name ends in .csv.\<close>

definition ends_with :: "string \<Rightarrow> string \<Rightarrow> bool" where
  "ends_with sfx name \<longleftrightarrow> length sfx \<le> length name \<and> drop (length name - length sfx) name = sfx"

definition glob_csv :: "rolling_forecast_splitter \<Rightarrow> world \<Rightarrow> path list" where
  "glob_csv self w = filter (\<lambda>p. fst p = input_dir self \<and> ends_with ''.csv'' (snd p)) (map fst (files w))"

definition process_files ::
  "(int list \<Rightarrow> nat list) \<Rightarrow> (cell list \<Rightarrow> nat \<Rightarrow> int option) \<Rightarrow>
   rolling_forecast_splitter \<Rightarrow> nat \<Rightarrow> world \<Rightarrow> world" where
  "process_files argsort to_datetime self min_data_points w =
     (let csv_files = glob_csv self w
      in if csv_files = [] then log_msg WARNING (No_CSV_files (input_dir self)) w
         else foldl (\<lambda>w' file_path. process_single_file argsort to_datetime self file_path min_data_points w')
                (log_msg INFO (Processing_files (length csv_files)) w) csv_files)"

text \<open>\<^verbatim>\<open>create_rolling_splits\<close> calls \<^verbatim>\<open>process_files()\<close> with its default threshold, 8.\<close>

definition create_rolling_splits ::
  "(int list \<Rightarrow> nat list) \<Rightarrow> (cell list \<Rightarrow> nat \<Rightarrow> int option) \<Rightarrow> string \<Rightarrow> string \<Rightarrow> world \<Rightarrow> world" where
  "create_rolling_splits argsort to_datetime in_dir out_dir w =
     process_files argsort to_datetime \<lparr>input_dir = in_dir, output_dir = out_dir\<rparr> 8 w"

section \<open>Decoding the period field\<close>

text \<open>
  \<^verbatim>\<open>json.loads\<close> on a \<^verbatim>\<open>str\<close>, as the standard decoder reads it in its default (strict)
  mode: white space is blank, tab, line feed and carriage return; a document is one value
  with nothing but white space around it. A text that is not such a document raises
  \<open>JSONDecodeError\<close>. Two limits of the interpreter raise something else: an integer
  literal with more digits than \<^verbatim>\<open>int\<close> converts raises \<open>ValueError\<close>, and arrays and
  objects nested deeper than the interpreter's recursion allows raise \<open>RecursionError\<close>.
\<close>

text \<open>
  The default of \<^verbatim>\<open>sys.get_int_max_str_digits()\<close>, and the default of
  \<^verbatim>\<open>sys.getrecursionlimit()\<close>. The depth that is really left when the decoder starts
  depends on the interpreter and on the call stack; the model takes the default limit for
  it.
\<close>

definition int_max_str_digits :: nat where
  "int_max_str_digits = 4300"

definition recursion_limit :: nat where
  "recursion_limit = 1000"

definition is_digit :: "char \<Rightarrow> bool" where
  "is_digit c \<longleftrightarrow> (48::nat) \<le> of_char c \<and> of_char c \<le> (57::nat)"

definition is_ws :: "char \<Rightarrow> bool" where
  "is_ws c \<longleftrightarrow> c = CHR '' '' \<or> c = CHR 0x09 \<or> c = CHR 0x0A \<or> c = CHR 0x0D"

definition skip_ws :: "string \<Rightarrow> string" where
  "skip_ws s = dropWhile is_ws s"

definition hex_digit :: "char \<Rightarrow> nat option" where
  "hex_digit c =
     (let n = of_char c :: nat
      in if 48 \<le> n \<and> n \<le> 57 then Some (n - 48)
         else if 97 \<le> n \<and> n \<le> 102 then Some (n - 87)
         else if 65 \<le> n \<and> n \<le> 70 then Some (n - 55)
         else None)"

fun decode_uXXXX :: "string \<Rightarrow> nat option" where
  "decode_uXXXX [a, b, c, d] =
     (case (hex_digit a, hex_digit b, hex_digit c, hex_digit d) of
        (Some x, Some y, Some z, Some w) \<Rightarrow> Some (((x * 16 + y) * 16 + z) * 16 + w)
      | _ \<Rightarrow> None)"
| "decode_uXXXX _ = None"

text \<open>The bytes of a code point in UTF-8 (a lone surrogate gets its three-byte form).\<close>

definition utf8_encode :: "nat \<Rightarrow> string" where
  "utf8_encode n =
     (if n < 0x80 then [char_of n]
      else if n < 0x800 then [char_of (0xC0 + n div 64), char_of (0x80 + n mod 64)]
      else if n < 0x10000 then
        [char_of (0xE0 + n div 4096), char_of (0x80 + (n div 64) mod 64), char_of (0x80 + n mod 64)]
      else
        [char_of (0xF0 + n div 262144), char_of (0x80 + (n div 4096) mod 64),
         char_of (0x80 + (n div 64) mod 64), char_of (0x80 + n mod 64)])"

text \<open>The one-letter escapes of a JSON string (the decoder's \<^verbatim>\<open>BACKSLASH\<close> table).\<close>

definition backslash :: "char \<Rightarrow> char option" where
  "backslash e =
     (if e = CHR 0x22 then Some (CHR 0x22)
      else if e = CHR 0x5C then Some (CHR 0x5C)
      else if e = CHR ''/'' then Some (CHR ''/'')
      else if e = CHR ''b'' then Some (CHR 0x08)
      else if e = CHR ''f'' then Some (CHR 0x0C)
      else if e = CHR ''n'' then Some (CHR 0x0A)
      else if e = CHR ''r'' then Some (CHR 0x0D)
      else if e = CHR ''t'' then Some (CHR 0x09)
      else None)"

text \<open>
  \<^verbatim>\<open>scanstring\<close>, from just after the opening quote: the decoded string and the text
  after the closing quote. A control character, an unknown escape or a missing closing
  quote is an error.
\<close>

fun scanstring :: "string \<Rightarrow> string \<Rightarrow> (string \<times> string) option" where
  "scanstring acc [] = None"
| "scanstring acc (c # s) =
     (if c = CHR 0x22 then Some (acc, s)
      else if c = CHR 0x5C then
        (case s of
           [] \<Rightarrow> None
         | e # s1 \<Rightarrow>
             if e = CHR ''u'' then
               (case decode_uXXXX (take 4 s1) of
                  None \<Rightarrow> None
                | Some uni \<Rightarrow>
                    if 0xD800 \<le> uni \<and> uni \<le> 0xDBFF \<and> take 2 (drop 4 s1) = [CHR 0x5C, CHR ''u''] then
                      (case decode_uXXXX (take 4 (drop 6 s1)) of
                         None \<Rightarrow> None
                       | Some uni2 \<Rightarrow>
                           if 0xDC00 \<le> uni2 \<and> uni2 \<le> 0xDFFF
                           then scanstring
                                  (acc @ utf8_encode (0x10000 + (uni - 0xD800) * 1024 + (uni2 - 0xDC00)))
                                  (drop 10 s1)
                           else scanstring (acc @ utf8_encode uni) (drop 4 s1))
                    else scanstring (acc @ utf8_encode uni) (drop 4 s1))
             else
               (case backslash e of
                  None \<Rightarrow> None
                | Some ch \<Rightarrow> scanstring (acc @ [ch]) s1))
      else if (of_char c :: nat) < 0x20 then None
      else scanstring (acc @ [c]) s)"

text \<open>
  The number at the start of the text, as the decoder's \<^verbatim>\<open>NUMBER_RE\<close> matches it:
  \<^verbatim>\<open>(-?(?:0|[1-9][0-9]*))(\.[0-9]+)?([eE][-+]?[0-9]+)?\<close>. The result is the matched text and
  what follows it: the sign, the integer part, the fraction, the exponent.
\<close>

definition match_sign :: "string \<Rightarrow> string \<times> string" where
  "match_sign s =
     (case s of
        [] \<Rightarrow> ([], s)
      | c # r \<Rightarrow> if c = CHR ''-'' then ([c], r) else ([], s))"

definition match_int :: "string \<Rightarrow> (string \<times> string) option" where
  "match_int s =
     (case s of
        [] \<Rightarrow> None
      | c # r \<Rightarrow>
          if \<not> is_digit c then None
          else if c = CHR ''0'' then Some ([c], r)
          else Some (c # takeWhile is_digit r, dropWhile is_digit r))"

definition match_frac :: "string \<Rightarrow> string \<times> string" where
  "match_frac s =
     (case s of
        p # d # r \<Rightarrow>
          if p = CHR ''.'' \<and> is_digit d
          then (p # d # takeWhile is_digit r, dropWhile is_digit r)
          else ([], s)
      | _ \<Rightarrow> ([], s))"

definition match_exp :: "string \<Rightarrow> string \<times> string" where
  "match_exp s =
     (case s of
        [] \<Rightarrow> ([], s)
      | e # r \<Rightarrow>
          if e = CHR ''e'' \<or> e = CHR ''E'' then
            (let (sg, r1) = (case r of
                               [] \<Rightarrow> ([], r)
                             | x # r' \<Rightarrow>
                                 if x = CHR ''+'' \<or> x = CHR ''-'' then ([x], r') else ([], r))
             in if r1 \<noteq> [] \<and> is_digit (hd r1)
                then (e # sg @ takeWhile is_digit r1, dropWhile is_digit r1)
                else ([], s))
          else ([], s))"

definition match_number :: "string \<Rightarrow> (string \<times> string) option" where
  "match_number s =
     (let (sign, s1) = match_sign s
      in case match_int s1 of
           None \<Rightarrow> None
         | Some (ip, s2) \<Rightarrow>
             let (fp, s3) = match_frac s2;
                 (ep, s4) = match_exp s3
             in Some (sign @ ip @ fp @ ep, s4))"

definition starts_with :: "string \<Rightarrow> string \<Rightarrow> bool" where
  "starts_with pre s \<longleftrightarrow> take (length pre) s = pre"

text \<open>
  The number read: an integer literal (no fraction, no exponent) goes through
  \<^verbatim>\<open>int\<close>, which refuses more than \<open>int_max_str_digits\<close> digits, the sign not counted;
  any other literal goes through \<^verbatim>\<open>float\<close>, which takes every text the pattern matches.
\<close>

definition is_float :: "string \<Rightarrow> bool" where
  "is_float lexeme \<longleftrightarrow> CHR ''.'' \<in> set lexeme \<or> CHR ''e'' \<in> set lexeme \<or> CHR ''E'' \<in> set lexeme"

definition py_number :: "string \<Rightarrow> exn + pyobj" where
  "py_number lexeme =
     (if \<not> is_float lexeme \<and> int_max_str_digits < length (filter is_digit lexeme)
      then Inl ValueError
      else Inr (PyNum lexeme))"

text \<open>
  \<^verbatim>\<open>scan_once\<close> with the array and object loops. \<open>depth\<close> is the number of nested arrays
  and objects the interpreter still allows: entering one takes one from it, and entering
  one with none left raises \<open>RecursionError\<close>. \<open>parse_array depth s acc\<close> stands at the
  start of an element, \<open>parse_object depth s acc\<close> just after the opening quote of a key;
  \<open>acc\<close> holds what the loop has read. Each loop goes round again only on a shorter
  text, which is what makes the recursion well-founded; the value read before always
  leaves a shorter text (lemma \<open>scan_once_shorter\<close> below), so this test never fails.
\<close>

function scan_once :: "nat \<Rightarrow> string \<Rightarrow> exn + (pyobj \<times> string)"
  and parse_array :: "nat \<Rightarrow> string \<Rightarrow> pyobj list \<Rightarrow> exn + (pyobj list \<times> string)"
  and parse_object :: "nat \<Rightarrow> string \<Rightarrow> (string \<times> pyobj) list
                         \<Rightarrow> exn + ((string \<times> pyobj) list \<times> string)"
where
  "scan_once depth [] = Inl JSONDecodeError"
| "scan_once depth (c # s) =
     (if c = CHR 0x22 then
        (case scanstring [] s of
           None \<Rightarrow> Inl JSONDecodeError
         | Some (str, r) \<Rightarrow> Inr (PyStr str, r))
      else if c = CHR ''{'' then
        (if depth = 0 then Inl RecursionError
         else
           (case skip_ws s of
              [] \<Rightarrow> Inl JSONDecodeError
            | c1 # r1 \<Rightarrow>
                if c1 = CHR ''}'' then Inr (PyDict [], r1)
                else if c1 = CHR 0x22 then
                  (case parse_object (depth - 1) r1 [] of
                     Inl e \<Rightarrow> Inl e
                   | Inr (pairs, r) \<Rightarrow> Inr (PyDict pairs, r))
                else Inl JSONDecodeError))
      else if c = CHR ''['' then
        (if depth = 0 then Inl RecursionError
         else
           (case skip_ws s of
              [] \<Rightarrow> Inl JSONDecodeError
            | c1 # r1 \<Rightarrow>
                if c1 = CHR '']'' then Inr (PyList [], r1)
                else (case parse_array (depth - 1) (c1 # r1) [] of
                        Inl e \<Rightarrow> Inl e
                      | Inr (values, r) \<Rightarrow> Inr (PyList values, r))))
      else if starts_with ''null'' (c # s) then Inr (PyNone, drop 3 s)
      else if starts_with ''true'' (c # s) then Inr (PyBool True, drop 3 s)
      else if starts_with ''false'' (c # s) then Inr (PyBool False, drop 4 s)
      else
        (case match_number (c # s) of
           Some (lexeme, r) \<Rightarrow>
             (case py_number lexeme of Inl e \<Rightarrow> Inl e | Inr n \<Rightarrow> Inr (n, r))
         | None \<Rightarrow>
             if starts_with ''NaN'' (c # s) then Inr (PyNum ''NaN'', drop 2 s)
             else if starts_with ''Infinity'' (c # s) then Inr (PyNum ''Infinity'', drop 7 s)
             else if starts_with ''-Infinity'' (c # s) then Inr (PyNum ''-Infinity'', drop 8 s)
             else Inl JSONDecodeError))"
| "parse_array depth s acc =
     (case scan_once depth s of
        Inl e \<Rightarrow> Inl e
      | Inr (v, r) \<Rightarrow>
          if length r < length s then
            (case skip_ws r of
               [] \<Rightarrow> Inl JSONDecodeError
             | c # r1 \<Rightarrow>
                 if c = CHR '']'' then Inr (acc @ [v], r1)
                 else if c = CHR '','' then parse_array depth (skip_ws r1) (acc @ [v])
                 else Inl JSONDecodeError)
          else Inl JSONDecodeError)"
| "parse_object depth s acc =
     (case scanstring [] s of
        None \<Rightarrow> Inl JSONDecodeError
      | Some (key, r) \<Rightarrow>
          (case skip_ws r of
             [] \<Rightarrow> Inl JSONDecodeError
           | c # r1 \<Rightarrow>
               if c \<noteq> CHR '':'' then Inl JSONDecodeError
               else
                 (case scan_once depth (skip_ws r1) of
                    Inl e \<Rightarrow> Inl e
                  | Inr (v, r2) \<Rightarrow>
                      if length r2 < length s then
                        (case skip_ws r2 of
                           [] \<Rightarrow> Inl JSONDecodeError
                         | c2 # r3 \<Rightarrow>
                             if c2 = CHR ''}'' then Inr (acc @ [(key, v)], r3)
                             else if c2 = CHR '','' then
                               (case skip_ws r3 of
                                  [] \<Rightarrow> Inl JSONDecodeError
                                | c3 # r4 \<Rightarrow>
                                    if c3 = CHR 0x22 then parse_object depth r4 (acc @ [(key, v)])
                                    else Inl JSONDecodeError)
                             else Inl JSONDecodeError)
                      else Inl JSONDecodeError)))"
  by pat_completeness auto
termination
proof -
  have ws: "\<And>s c r. skip_ws s = c # r \<Longrightarrow> length r < length s \<and> length (skip_ws r) < length s"
  proof -
    fix s c r
    assume a: "skip_ws s = c # r"
    have "length (skip_ws s) \<le> length s" "length (skip_ws r) \<le> length r"
      by (simp_all add: skip_ws_def length_dropWhile_le)
    then show "length r < length s \<and> length (skip_ws r) < length s"
      using a by simp
  qed
  have ss: "\<And>acc s k r. scanstring acc s = Some (k, r) \<Longrightarrow> length r \<le> length s"
  proof -
    fix acc s k r
    show "scanstring acc s = Some (k, r) \<Longrightarrow> length r \<le> length s"
    proof (induction s arbitrary: acc rule: length_induct)
      case (1 s)
      have IH: "\<And>a ys. scanstring a ys = Some (k, r) \<Longrightarrow> length ys < length s
                  \<Longrightarrow> length r \<le> length ys"
        using "1.IH" by blast
      show ?case
      proof (cases s)
        case Nil
        with "1.prems" show ?thesis by simp
      next
        case (Cons c s')
        show ?thesis
          using "1.prems"
          by (auto simp: Cons split: if_splits list.splits option.splits dest!: IH)
      qed
    qed
  qed
  have wss: "\<And>acc s k r c r1. scanstring acc s = Some (k, r) \<Longrightarrow> skip_ws r = c # r1
                \<Longrightarrow> length (skip_ws r1) < length s"
    using ws ss by (meson le_trans not_le)
  show ?thesis
    by (relation "measure (\<lambda>x. case x of
                     Inl (depth, s) \<Rightarrow> 2 * length s
                   | Inr (Inl (depth, s, acc)) \<Rightarrow> 2 * length s + 1
                   | Inr (Inr (depth, s, acc)) \<Rightarrow> 2 * length s + 1)")
       (auto dest: ws ss wss)
qed

text \<open>
  \<^verbatim>\<open>json.loads(s)\<close>: one value between optional white space; anything left over is
  "Extra data".
\<close>

definition json_loads :: "string \<Rightarrow> exn + pyobj" where
  "json_loads s =
     (case scan_once recursion_limit (skip_ws s) of
        Inl e \<Rightarrow> Inl e
      | Inr (obj, r) \<Rightarrow> if skip_ws r = [] then Inr obj else Inl JSONDecodeError)"

text \<open>
  \<^verbatim>\<open>d.get(k, default)\<close> on a dict built from the pairs read: the last pair with the key
  counts. On anything that is not a dict the attribute \<^verbatim>\<open>get\<close> does not exist.
\<close>

definition dict_get :: "(string \<times> pyobj) list \<Rightarrow> string \<Rightarrow> pyobj \<Rightarrow> pyobj" where
  "dict_get pairs k dflt = (case map_of (rev pairs) k of Some v \<Rightarrow> v | None \<Rightarrow> dflt)"

definition py_get :: "pyobj \<Rightarrow> string \<Rightarrow> pyobj \<Rightarrow> exn + pyobj" where
  "py_get obj k dflt =
     (case obj of PyDict pairs \<Rightarrow> Inr (dict_get pairs k dflt) | _ \<Rightarrow> Inl AttributeError)"

text \<open>\<^verbatim>\<open>period_str.replace("'", "\"")\<close>: every single quote becomes a double quote.\<close>

definition replace_quotes :: "string \<Rightarrow> string" where
  "replace_quotes s = map (\<lambda>c. if c = CHR 0x27 then CHR 0x22 else c) s"

section \<open>The data preprocessor\<close>

text \<open>
  The body of the \<^verbatim>\<open>try\<close> in \<^verbatim>\<open>_parse_period\<close>. Only a \<^verbatim>\<open>str\<close> has the method
  \<^verbatim>\<open>replace\<close>: any other cell value (the NaN of an empty cell, a number, a boolean)
  raises \<open>AttributeError\<close>.
\<close>

definition parse_period_try :: "pyobj \<Rightarrow> exn + (pyobj \<times> pyobj)" where
  "parse_period_try period_str =
     (case period_str of
        PyStr s \<Rightarrow>
          (case json_loads (replace_quotes s) of
             Inl e \<Rightarrow> Inl e
           | Inr period_dict \<Rightarrow>
               (case py_get period_dict ''type'' (PyDict []) of
                  Inl e \<Rightarrow> Inl e
                | Inr t \<Rightarrow>
                    (case py_get t ''S'' PyNone of
                       Inl e \<Rightarrow> Inl e
                     | Inr period_type \<Rightarrow>
                         (case py_get period_dict ''start_date'' (PyDict []) of
                            Inl e \<Rightarrow> Inl e
                          | Inr d \<Rightarrow>
                              (case py_get d ''S'' PyNone of
                                 Inl e \<Rightarrow> Inl e
                               | Inr start_date \<Rightarrow> Inr (period_type, start_date))))))
      | _ \<Rightarrow> Inl AttributeError)"

text \<open>
  \<^verbatim>\<open>_parse_period\<close>: the \<^verbatim>\<open>except\<close> clause catches \<open>JSONDecodeError\<close> and
  \<open>AttributeError\<close>, logs a warning and returns \<^verbatim>\<open>(None, None)\<close>; any other exception
  goes on to the caller.
\<close>

definition parse_period :: "pyobj \<Rightarrow> logger \<Rightarrow> (exn + (pyobj \<times> pyobj)) \<times> logger" where
  "parse_period period_str lg =
     (case parse_period_try period_str of
        Inr r \<Rightarrow> (Inr r, lg)
      | Inl e \<Rightarrow>
          if e = JSONDecodeError \<or> e = AttributeError
          then (Inr (PyNone, PyNone), lg @ [(WARNING, Error_parsing_period period_str e)])
          else (Inl e, lg))"

text \<open>The columns \<^verbatim>\<open>_load_and_validate_data\<close> requires.\<close>

definition required_columns :: "string list" where
  "required_columns = [''partner_id'', ''period'', ''report_type'', ''value'']"

definition obj_at :: "pyobj list \<Rightarrow> nat \<Rightarrow> pyobj" where
  "obj_at r i = (if i < length r then r ! i else PyNum ''nan'')"

text \<open>\<^verbatim>\<open>df[cols]\<close> for labels that are all columns of the frame.\<close>

definition select_columns :: "string list \<Rightarrow> pyobj frame \<Rightarrow> pyobj frame" where
  "select_columns cols df =
     \<lparr>columns = cols,
      rows = map (\<lambda>r. map (\<lambda>c. case index_of c (columns df) of
                                   Some i \<Rightarrow> obj_at r i
                                 | None \<Rightarrow> PyNum ''nan'') cols) (rows df)\<rparr>"

text \<open>
  \<^verbatim>\<open>_load_and_validate_data\<close>. Its first argument is what \<^verbatim>\<open>pd.read_csv(self.file_path)\<close>
  did: the frame, or the exception it raised. Whatever is raised in the \<^verbatim>\<open>try\<close> is logged
  as an error and raised again.
\<close>

definition load_and_validate_data ::
  "exn + pyobj frame \<Rightarrow> string \<Rightarrow> logger \<Rightarrow> (exn + pyobj frame) \<times> logger" where
  "load_and_validate_data read_result file_path lg =
     (case read_result of
        Inl e \<Rightarrow> (Inl e, lg @ [(ERROR, Error_loading_data e)])
      | Inr df \<Rightarrow>
          if \<not> list_all (\<lambda>col. col \<in> set (columns df)) required_columns
          then (Inl ValueError, lg @ [(ERROR, Error_loading_data ValueError)])
          else (Inr (select_columns required_columns df),
                lg @ [(INFO, Loaded_rows (length (rows df)) file_path)]))"

text \<open>
  \<^verbatim>\<open>df['period'].apply(self._parse_period)\<close>: the rows in order, the log threaded
  through, the first exception ending the loop.
\<close>

fun apply_parse_period :: "pyobj list \<Rightarrow> logger \<Rightarrow> (exn + (pyobj \<times> pyobj) list) \<times> logger" where
  "apply_parse_period [] lg = (Inr [], lg)"
| "apply_parse_period (p # ps) lg =
     (case parse_period p lg of
        (Inl e, lg1) \<Rightarrow> (Inl e, lg1)
      | (Inr r, lg1) \<Rightarrow>
          (case apply_parse_period ps lg1 of
             (Inl e, lg2) \<Rightarrow> (Inl e, lg2)
           | (Inr rs, lg2) \<Rightarrow> (Inr (r # rs), lg2)))"

text \<open>
  \<^verbatim>\<open>_process_data\<close>, on the frame of the four required columns: rename \<^verbatim>\<open>value\<close>,
  parse every period into the two new columns (a frame without rows gives the library
  nothing to build the two columns from, and the assignment raises \<open>ValueError\<close>), drop
  \<^verbatim>\<open>period\<close>, coerce the start dates, and drop the rows whose date is NaT.
\<close>

definition process_data ::
  "(cell list \<Rightarrow> nat \<Rightarrow> int option) \<Rightarrow> pyobj frame \<Rightarrow> logger \<Rightarrow> (exn + cell frame) \<times> logger" where
  "process_data to_datetime df lg =
     (case index_of ''period'' (columns df) of
        None \<Rightarrow> (Inl (KeyError ''period''), lg)
      | Some i \<Rightarrow>
          (case apply_parse_period (map (\<lambda>r. obj_at r i) (rows df)) lg of
             (Inl e, lg1) \<Rightarrow> (Inl e, lg1)
           | (Inr period_data, lg1) \<Rightarrow>
               if period_data = [] then (Inl ValueError, lg1)
               else
                 let cols = filter (\<lambda>c. c \<noteq> ''period'')
                              (map (\<lambda>c. if c = ''value'' then ''revenue'' else c) (columns df))
                            @ [''period_type'', ''start_date''];
                     dates = map (\<lambda>pd. Obj (snd pd)) period_data;
                     rs = map (\<lambda>(k, r, pd).
                                 (to_datetime dates k,
                                  map Obj (map snd (filter (\<lambda>(c, x). c \<noteq> ''period'') (zip (columns df) r)))
                                  @ [Obj (fst pd), coerce_cell (to_datetime dates k)]))
                            (zip [0..<length period_data] (zip (rows df) period_data));
                     invalid_dates = length (filter (\<lambda>x. fst x = None) rs);
                     lg2 = (if invalid_dates > 0
                            then lg1 @ [(WARNING, Removing_invalid_dates invalid_dates)] else lg1);
                     kept = map snd (filter (\<lambda>x. fst x \<noteq> None) rs)
                 in (Inr \<lparr>columns = cols, rows = kept\<rparr>,
                     lg2 @ [(INFO, Processed_data_shape (length kept) (length cols))])))"

text \<open>
  \<^verbatim>\<open>DataPreprocessor.__init__\<close>: load and validate, then process. An exception of
  either step leaves no object behind.
\<close>

record data_preprocessor =
  self_file_path :: string
  self_output_dir :: string
  self_df :: "cell frame"

definition init_data_preprocessor ::
  "(cell list \<Rightarrow> nat \<Rightarrow> int option) \<Rightarrow> exn + pyobj frame \<Rightarrow> string \<Rightarrow> string \<Rightarrow> logger
     \<Rightarrow> (exn + data_preprocessor) \<times> logger" where
  "init_data_preprocessor to_datetime read_result path dir lg =
     (case load_and_validate_data read_result path lg of
        (Inl e, lg1) \<Rightarrow> (Inl e, lg1)
      | (Inr loaded, lg1) \<Rightarrow>
          (case process_data to_datetime loaded lg1 of
             (Inl e, lg2) \<Rightarrow> (Inl e, lg2)
           | (Inr processed, lg2) \<Rightarrow>
               (Inr \<lparr>self_file_path = path, self_output_dir = dir, self_df = processed\<rparr>, lg2)))"

section \<open>Instances of the library parameters, for concrete runs\<close>

text \<open>
  An argsort that meets \<open>is_argsort\<close> and keeps equal keys in their original order
  (the library's \<^verbatim>\<open>kind='stable'\<close>), and one that meets it and puts equal keys in
  the reverse of their original order.
\<close>

definition stable_argsort :: "int list \<Rightarrow> nat list" where
  "stable_argsort ks = map snd (sort_key fst (zip ks [0..<length ks]))"

definition reversing_argsort :: "int list \<Rightarrow> nat list" where
  "reversing_argsort ks = map snd (sort_key fst (rev (zip ks [0..<length ks])))"

text \<open>
  A conversion for dates written \<^verbatim>\<open>YYYY-MM-DD\<close>: the timestamp is the number
  \<open>YYYYMMDD\<close>, which orders such dates as the calendar does. Anything else is NaT.
\<close>

definition digits_value :: "string \<Rightarrow> nat" where
  "digits_value s = foldl (\<lambda>a c. 10 * a + (of_char c - 48)) 0 s"

definition iso_date :: "string \<Rightarrow> int option" where
  "iso_date s =
     (if length s = 10 \<and> s ! 4 = CHR ''-'' \<and> s ! 7 = CHR ''-''
         \<and> list_all is_digit (take 4 s @ take 2 (drop 5 s) @ drop 8 s)
      then Some (int (digits_value (take 4 s @ take 2 (drop 5 s) @ drop 8 s)))
      else None)"

definition iso_to_datetime :: "cell list \<Rightarrow> nat \<Rightarrow> int option" where
  "iso_to_datetime col k =
     (case cell_at col k of
        Obj (PyStr s) \<Rightarrow> iso_date s
      | Timestamp t \<Rightarrow> Some t
      | _ \<Rightarrow> None)"

text \<open>A series file as the group writer leaves it, one row per (revenue, start date).\<close>

definition series_columns :: "string list" where
  "series_columns = [''partner_id'', ''report_type'', ''revenue'', ''period_type'', ''start_date'']"

definition series_row :: "string \<times> string \<Rightarrow> cell list" where
  "series_row r = [Obj (PyStr ''P1''), Obj (PyStr ''rev''), Obj (PyNum (fst r)),
                   Obj (PyStr ''M''), Obj (PyStr (snd r))]"

definition sorted_row :: "string \<times> int option \<Rightarrow> cell list" where
  "sorted_row r = [Obj (PyStr ''P1''), Obj (PyStr ''rev''), Obj (PyNum (fst r)),
                   Obj (PyStr ''M''), coerce_cell (snd r)]"

definition series_frame :: "(string \<times> string) list \<Rightarrow> cell frame" where
  "series_frame rs = \<lparr>columns = series_columns, rows = map series_row rs\<rparr>"

definition sorted_frame :: "(string \<times> int option) list \<Rightarrow> cell frame" where
  "sorted_frame rs = \<lparr>columns = series_columns, rows = map sorted_row rs\<rparr>"

definition series_file :: path where
  "series_file = (''data/processed'', ''P1_M.csv'')"

definition series_world :: "(string \<times> string) list \<Rightarrow> world" where
  "series_world rs = \<lparr>files = [(series_file, series_frame rs)], logger = []\<rparr>"

definition default_splitter :: rolling_forecast_splitter where
  "default_splitter = \<lparr>input_dir = ''data/processed'', output_dir = ''data/split_data''\<rparr>"

definition months :: "(string \<times> string) list" where
  "months = [(''100'', ''2024-01-01''), (''110'', ''2024-02-01''), (''120'', ''2024-03-01''),
             (''130'', ''2024-04-01''), (''140'', ''2024-05-01''), (''150'', ''2024-06-01''),
             (''160'', ''2024-07-01''), (''170'', ''2024-08-01''), (''180'', ''2024-09-01'')]"

definition months_coerced :: "(string \<times> int option) list" where
  "months_coerced = [(''100'', Some 20240101), (''110'', Some 20240201), (''120'', Some 20240301),
             (''130'', Some 20240401), (''140'', Some 20240501), (''150'', Some 20240601),
             (''160'', Some 20240701), (''170'', Some 20240801), (''180'', Some 20240901)]"

text \<open>The same months with one row whose date does not parse, and a series of one day.\<close>

definition months_with_gap :: "(string \<times> string) list" where
  "months_with_gap = [(''100'', ''2024-01-01''), (''110'', ''2024-02-01''), (''115'', ''not a date''),
             (''120'', ''2024-03-01''), (''130'', ''2024-04-01''), (''140'', ''2024-05-01''),
             (''150'', ''2024-06-01''), (''160'', ''2024-07-01''), (''170'', ''2024-08-01'')]"


definition months_with_gap_coerced :: "(string \<times> int option) list" where
  "months_with_gap_coerced = [(''100'', Some 20240101), (''110'', Some 20240201), (''115'', None),
             (''120'', Some 20240301), (''130'', Some 20240401), (''140'', Some 20240501),
             (''150'', Some 20240601), (''160'', Some 20240701), (''170'', Some 20240801)]"

section \<open>Period strings\<close>

text \<open>
  The period string of the form \<^verbatim>\<open>{'type': {'<tag>': T}, 'start_date': {'<tag>': D}}\<close>,
  written with the quote character \<open>q\<close> around its keys and its two payloads.
\<close>

definition period_text :: "char \<Rightarrow> string \<Rightarrow> string \<Rightarrow> string \<Rightarrow> string" where
  "period_text q tag T D =
     ''{'' @ [q] @ ''type'' @ [q] @ '': {'' @ [q] @ tag @ [q] @ '': '' @ [q] @ T @ [q] @ ''}, ''
     @ [q] @ ''start_date'' @ [q] @ '': {'' @ [q] @ tag @ [q] @ '': '' @ [q] @ D @ [q] @ ''}}''"

text \<open>
  A character that stands for itself inside a JSON string and is untouched by the
  replacement of quotes: no quote of either kind, no backslash, no control character.
\<close>

definition plain_char :: "char \<Rightarrow> bool" where
  "plain_char c \<longleftrightarrow> c \<noteq> CHR 0x22 \<and> c \<noteq> CHR 0x27 \<and> c \<noteq> CHR 0x5C \<and> (0x20::nat) \<le> of_char c"

section \<open>The splitter: sorting and slicing\<close>

lemma argsort_set: "is_argsort f \<Longrightarrow> set (f ks) = {0..<length ks}"
  unfolding is_argsort_def by (metis mset_eq_setD set_upt)

lemma mset_map_nth_perm:
  assumes "mset js = mset [0..<length xs]"
  shows "mset (map (\<lambda>j. xs ! j) js) = mset xs"
proof -
  have "mset (map (\<lambda>j. xs ! j) js) = image_mset (\<lambda>j. xs ! j) (mset js)" by simp
  also have "\<dots> = image_mset (\<lambda>j. xs ! j) (mset [0..<length xs])" using assms by simp
  also have "\<dots> = mset (map (\<lambda>j. xs ! j) [0..<length xs])" by simp
  also have "\<dots> = mset xs" by (simp add: map_nth)
  finally show ?thesis .
qed

text \<open>
  With an argsort that meets its contract, the sorted rows are the rows with a timestamp,
  ascending, followed by the rows without one in their original order.
\<close>

lemma sort_values_decomp:
  assumes "is_argsort f"
  shows "\<exists>valid. sort_values f key xs = valid @ filter (\<lambda>r. key r = None) xs
           \<and> (\<forall>r\<in>set valid. key r \<noteq> None)
           \<and> sorted (map (\<lambda>r. the (key r)) valid)
           \<and> mset valid = mset (filter (\<lambda>r. key r \<noteq> None) xs)"
proof -
  define nn where "nn = filter (\<lambda>r. key r \<noteq> None) xs"
  define ks where "ks = map (\<lambda>r. the (key r)) nn"
  define valid where "valid = map (\<lambda>j. nn ! j) (f ks)"
  have len: "length ks = length nn" by (simp add: ks_def)
  have perm: "mset (f ks) = mset [0..<length nn]"
    using assms len unfolding is_argsort_def by metis
  have rng: "\<forall>j\<in>set (f ks). j < length nn"
    using argsort_set[OF assms, of ks] len by simp
  have m: "mset valid = mset nn"
    unfolding valid_def by (rule mset_map_nth_perm[OF perm])
  have "set valid = set nn" using m by (metis set_mset_mset)
  then have k: "\<forall>r\<in>set valid. key r \<noteq> None" by (simp add: nn_def)
  have "\<forall>j\<in>set (f ks). the (key (nn ! j)) = ks ! j"
    using rng by (simp add: ks_def)
  then have "map (\<lambda>r. the (key r)) valid = map (\<lambda>j. ks ! j) (f ks)"
    unfolding valid_def by simp
  moreover have "sorted (map (\<lambda>j. ks ! j) (f ks))"
    using assms unfolding is_argsort_def by blast
  ultimately have s: "sorted (map (\<lambda>r. the (key r)) valid)" by simp
  have "sort_values f key xs = valid @ filter (\<lambda>r. key r = None) xs"
    by (simp add: sort_values_def valid_def ks_def nn_def Let_def)
  with k s m show ?thesis unfolding nn_def by blast
qed

lemma sort_values_mset:
  assumes "is_argsort f"
  shows "mset (sort_values f key xs) = mset xs"
proof -
  from sort_values_decomp[OF assms, of key xs] obtain valid where
    v: "sort_values f key xs = valid @ filter (\<lambda>r. key r = None) xs"
       "mset valid = mset (filter (\<lambda>r. key r \<noteq> None) xs)" by blast
  have "mset (sort_values f key xs)
          = mset (filter (\<lambda>r. key r \<noteq> None) xs) + mset (filter (\<lambda>r. key r = None) xs)"
    using v by simp
  also have "\<dots> = mset xs"
    by (induction xs) auto
  finally show ?thesis .
qed

lemma sort_values_length: "is_argsort f \<Longrightarrow> length (sort_values f key xs) = length xs"
  by (metis sort_values_mset size_mset)

lemma stable_is_argsort: "is_argsort stable_argsort"
  unfolding is_argsort_def
proof (intro allI conjI)
  fix ks :: "int list"
  let ?zs = "zip ks [0..<length ks]"
  show "mset (stable_argsort ks) = mset [0..<length ks]"
  proof -
    have "mset (stable_argsort ks) = image_mset snd (mset (sort_key fst ?zs))"
      by (simp add: stable_argsort_def)
    also have "\<dots> = image_mset snd (mset ?zs)" by simp
    also have "\<dots> = mset (map snd ?zs)" by (simp only: mset_map)
    also have "map snd ?zs = [0..<length ks]" by simp
    finally show ?thesis .
  qed
  have "\<forall>p\<in>set (sort_key fst ?zs). ks ! snd p = fst p"
    by (auto simp: set_zip)
  then have "map (\<lambda>j. ks ! j) (stable_argsort ks) = map fst (sort_key fst ?zs)"
    by (simp add: stable_argsort_def)
  then show "sorted (map (\<lambda>j. ks ! j) (stable_argsort ks))"
    by simp
qed


lemma index_of_None: "index_of c xs = None \<longleftrightarrow> c \<notin> set xs"
  by (induction xs) auto

lemma coerce_start_date_shape:
  assumes "coerce_start_date to_datetime df = Inr (i, cdf)"
  shows "index_of ''start_date'' (columns df) = Some i"
    and "columns cdf = columns df"
    and "length (rows cdf) = length (rows df)"
  using assms by (auto simp: coerce_start_date_def Let_def split: option.splits)

lemma coerced_null_key:
  assumes "coerce_start_date to_datetime df = Inr (i, cdf)"
    and "k < length (rows df)"
    and "to_datetime (map (\<lambda>r. cell_at r i) (rows df)) k = None"
  shows "start_date_key i (rows cdf ! k) = None"
proof -
  have "rows cdf ! k = (rows df ! k)[i := NaT]"
    using assms
    by (auto simp: coerce_start_date_def Let_def coerce_cell_def nth_enumerate_eq split: option.splits)
  then show ?thesis
    by (simp add: start_date_key_def cell_at_def)
qed

lemma sorted_by_start_date_shape:
  assumes "is_argsort argsort" and "sorted_by_start_date argsort to_datetime df = Inr (i, sdf)"
  shows "columns sdf = columns df" and "length (rows sdf) = length (rows df)"
  using assms
  by (auto simp: sorted_by_start_date_def sort_values_length
      dest: coerce_start_date_shape split: sum.splits)

lemma sorted_by_start_date_defined:
  assumes "''start_date'' \<in> set (columns df)"
  shows "\<exists>i sdf. sorted_by_start_date argsort to_datetime df = Inr (i, sdf)"
proof -
  from assms obtain i where "index_of ''start_date'' (columns df) = Some i"
    using index_of_None[of "''start_date''" "columns df"] by auto
  then show ?thesis
    by (simp add: sorted_by_start_date_def coerce_start_date_def Let_def)
qed

lemma filenames_distinct:
  "train_filename self p \<noteq> initial_test_filename self p"
  "train_filename self p \<noteq> final_test_filename self p"
  "initial_test_filename self p \<noteq> final_test_filename self p"
  "initial_test_filename self p \<noteq> train_filename self p"
  "final_test_filename self p \<noteq> train_filename self p"
  "final_test_filename self p \<noteq> initial_test_filename self p"
  by (simp_all add: train_filename_def initial_test_filename_def final_test_filename_def)

lemma process_single_file_skip:
  assumes "read_csv w p = Inr df" and "sorted_by_start_date argsort to_datetime df = Inr (i, sdf)"
    and "length (rows sdf) < m"
  shows "process_single_file argsort to_datetime self p m w
           = w\<lparr>logger := logger w @ [(WARNING, Not_enough_data_points (snd p) (length (rows sdf)) m)]\<rparr>"
  using assms by (simp add: process_single_file_def log_msg_def)

lemma process_single_file_split:
  assumes "read_csv w p = Inr df" and "sorted_by_start_date argsort to_datetime df = Inr (i, sdf)"
    and "m \<le> length (rows sdf)"
  shows "map_of (files (process_single_file argsort to_datetime self p m w)) (train_filename self p)
           = Some (iloc_upto_last 8 sdf)"
    and "map_of (files (process_single_file argsort to_datetime self p m w)) (initial_test_filename self p)
           = Some (iloc_last 8 sdf)"
    and "map_of (files (process_single_file argsort to_datetime self p m w)) (final_test_filename self p)
           = Some (iloc_upto_last 4 (iloc_last 8 sdf))"
  using assms
  by (simp_all add: process_single_file_def log_msg_def to_csv_def Let_def update_conv' filenames_distinct)

subsection \<open>The example series\<close>

lemmas example_defs = coerce_start_date_def sorted_by_start_date_def sort_values_def start_date_key_def
  series_columns_def series_row_def sorted_row_def series_frame_def sorted_frame_def
  iso_to_datetime_def cell_at_def coerce_cell_def iso_date_def is_digit_def digits_value_def
  stable_argsort_def reversing_argsort_def enumerate_eq_zip upt_rec

lemmas run_defs = process_single_file_def log_msg_def to_csv_def iloc_upto_last_def iloc_last_def
  train_filename_def initial_test_filename_def final_test_filename_def stem_def Let_def
  read_csv_def series_world_def series_file_def default_splitter_def

lemma read_series_world: "read_csv (series_world rs) series_file = Inr (series_frame rs)"
  by (simp add: read_csv_def series_world_def)

lemma series_frame_shape:
  "''start_date'' \<in> set (columns (series_frame rs))"
  "length (rows (series_frame rs)) = length rs"
  by (simp_all add: series_frame_def series_columns_def)

lemma example_filenames:
  "train_filename default_splitter series_file = (''data/split_data'', ''P1_M_train.csv'')"
  "initial_test_filename default_splitter series_file = (''data/split_data'', ''P1_M_initial_test.csv'')"
  "final_test_filename default_splitter series_file = (''data/split_data'', ''P1_M_final_test.csv'')"
  by (simp_all add: train_filename_def initial_test_filename_def final_test_filename_def
      default_splitter_def series_file_def stem_def)

lemma sorted_months8:
  "sorted_by_start_date stable_argsort iso_to_datetime (series_frame (take 8 months))
     = Inr (4, sorted_frame (take 8 months_coerced))"
  by (simp add: example_defs months_def months_coerced_def)

lemma sorted_months9:
  "sorted_by_start_date stable_argsort iso_to_datetime (series_frame months)
     = Inr (4, sorted_frame months_coerced)"
  by (simp add: example_defs months_def months_coerced_def)

lemma coerced_gap:
  "coerce_start_date iso_to_datetime (series_frame months_with_gap)
     = Inr (4, sorted_frame months_with_gap_coerced)"
  by (simp add: example_defs months_with_gap_def months_with_gap_coerced_def)

lemma nulls_gap:
  "filter (\<lambda>r. start_date_key 4 r = None) (rows (sorted_frame months_with_gap_coerced))
     = [sorted_row (''115'', None)]"
  by (simp add: example_defs months_with_gap_coerced_def)

subsection \<open>Claims on the rolling window splitter\<close>

text \<open>
  C7. A series group with fewer than 8 rows (the default threshold that
  \<^verbatim>\<open>create_rolling_splits\<close> runs with) is skipped: processing its file writes no file
  at all and adds exactly one warning to the log. The group is a readable file with a
  \<^verbatim>\<open>start_date\<close> column; the witness is a group of exactly 7 rows.
\<close>

theorem C7_undersized_group_skipped:
  assumes "is_argsort argsort"
    and "read_csv w file_path = Inr df"
    and "''start_date'' \<in> set (columns df)"
    and "length (rows df) < 8"
  shows "files (process_single_file argsort to_datetime self file_path 8 w) = files w
       \<and> logger (process_single_file argsort to_datetime self file_path 8 w)
           = logger w @ [(WARNING, Not_enough_data_points (snd file_path) (length (rows df)) 8)]"
proof -
  from assms(3) obtain i sdf where s: "sorted_by_start_date argsort to_datetime df = Inr (i, sdf)"
    using sorted_by_start_date_defined by blast
  have n: "length (rows sdf) = length (rows df)"
    using sorted_by_start_date_shape(2)[OF assms(1) s] .
  show ?thesis
    using process_single_file_skip[OF assms(2) s, of 8 self] assms(4) n by simp
qed

theorem C7_seven_rows_witness:
  "is_argsort stable_argsort
   \<and> read_csv (series_world (take 7 months)) series_file = Inr (series_frame (take 7 months))
   \<and> ''start_date'' \<in> set (columns (series_frame (take 7 months)))
   \<and> length (rows (series_frame (take 7 months))) < 8
   \<and> files (process_single_file stable_argsort iso_to_datetime default_splitter series_file 8
              (series_world (take 7 months)))
       = [(series_file, series_frame (take 7 months))]
   \<and> logger (process_single_file stable_argsort iso_to_datetime default_splitter series_file 8
              (series_world (take 7 months)))
       = [(WARNING, Not_enough_data_points ''P1_M.csv'' 7 8)]"
proof -
  have l: "length (rows (series_frame (take 7 months))) < 8"
    by (simp add: series_frame_shape months_def)
  have n: "length (rows (series_frame (take 7 months))) = 7"
    by (simp add: series_frame_shape months_def)
  show ?thesis
    using C7_undersized_group_skipped[OF stable_is_argsort read_series_world series_frame_shape(1) l,
        of iso_to_datetime default_splitter]
      stable_is_argsort read_series_world[of "take 7 months"] series_frame_shape(1)[of "take 7 months"] l n
    by (simp add: series_world_def series_file_def)
qed

text \<open>
  C8. For a group of exactly 8 rows the train slice is empty and is still written: after
  the run the train file exists and holds the frame's columns and no row, the initial
  test file holds all 8 sorted rows, the final test file holds 4 rows, and the three file
  names are distinct, so three files are produced.
\<close>

theorem C8_empty_train_still_written:
  assumes "is_argsort argsort"
    and "read_csv w file_path = Inr df"
    and "sorted_by_start_date argsort to_datetime df = Inr (i, sdf)"
    and "length (rows df) = 8"
  shows "map_of (files (process_single_file argsort to_datetime self file_path 8 w))
             (train_filename self file_path) = Some \<lparr>columns = columns df, rows = []\<rparr>
       \<and> map_of (files (process_single_file argsort to_datetime self file_path 8 w))
             (initial_test_filename self file_path) = Some sdf
       \<and> map_of (files (process_single_file argsort to_datetime self file_path 8 w))
             (final_test_filename self file_path) = Some (sdf\<lparr>rows := take 4 (rows sdf)\<rparr>)
       \<and> distinct [train_filename self file_path, initial_test_filename self file_path,
                    final_test_filename self file_path]"
proof -
  have n: "length (rows sdf) = 8"
    using sorted_by_start_date_shape(2)[OF assms(1,3)] assms(4) by simp
  have c: "columns sdf = columns df"
    using sorted_by_start_date_shape(1)[OF assms(1,3)] .
  have m: "8 \<le> length (rows sdf)" using n by simp
  have t: "iloc_upto_last 8 sdf = \<lparr>columns = columns df, rows = []\<rparr>"
    using n c by (simp add: iloc_upto_last_def)
  have it: "iloc_last 8 sdf = sdf"
    using n by (simp add: iloc_last_def)
  have ft: "iloc_upto_last 4 sdf = sdf\<lparr>rows := take 4 (rows sdf)\<rparr>"
    using n by (simp add: iloc_upto_last_def)
  show ?thesis
    using process_single_file_split[OF assms(2,3) m, of self] t it ft
    by (simp add: filenames_distinct)
qed

theorem C8_eight_rows_witness:
  "is_argsort stable_argsort
   \<and> length (rows (series_frame (take 8 months))) = 8
   \<and> map_of (files (process_single_file stable_argsort iso_to_datetime default_splitter series_file 8
                      (series_world (take 8 months))))
         (''data/split_data'', ''P1_M_train.csv'') = Some \<lparr>columns = series_columns, rows = []\<rparr>
   \<and> map_of (files (process_single_file stable_argsort iso_to_datetime default_splitter series_file 8
                      (series_world (take 8 months))))
         (''data/split_data'', ''P1_M_initial_test.csv'') = Some (sorted_frame (take 8 months_coerced))"
proof -
  have l: "length (rows (series_frame (take 8 months))) = 8"
    by (simp add: series_frame_shape months_def)
  show ?thesis
    using C8_empty_train_still_written[OF stable_is_argsort read_series_world sorted_months8 l,
        of default_splitter] stable_is_argsort l
    by (simp add: example_filenames series_frame_def)
qed

text \<open>
  C4. For a group of n rows, n at least 8, the files written hold: as initial test the
  last 8 rows of the sorted series, as train the n - 8 rows before them, and a final test
  with 4 rows fewer than the initial test; train followed by initial test is the sorted
  series.
\<close>

theorem C4_split_partitions_sorted_series:
  assumes "is_argsort argsort"
    and "read_csv w file_path = Inr df"
    and "sorted_by_start_date argsort to_datetime df = Inr (i, sdf)"
    and "8 \<le> length (rows df)"
    and "w' = process_single_file argsort to_datetime self file_path 8 w"
  shows "\<exists>train initial_test final_test.
           map_of (files w') (train_filename self file_path) = Some train
         \<and> map_of (files w') (initial_test_filename self file_path) = Some initial_test
         \<and> map_of (files w') (final_test_filename self file_path) = Some final_test
         \<and> rows initial_test = drop (length (rows df) - 8) (rows sdf)
         \<and> length (rows initial_test) = 8
         \<and> rows train = take (length (rows df) - 8) (rows sdf)
         \<and> length (rows final_test) + 4 = length (rows initial_test)
         \<and> rows train @ rows initial_test = rows sdf"
proof -
  have n: "length (rows sdf) = length (rows df)"
    using sorted_by_start_date_shape(2)[OF assms(1,3)] .
  have m: "8 \<le> length (rows sdf)" using n assms(4) by simp
  show ?thesis
    unfolding assms(5)
    using process_single_file_split[OF assms(2,3) m, of self] n m
    by (simp add: iloc_upto_last_def iloc_last_def)
qed

theorem C4_nine_rows_witness:
  "is_argsort stable_argsort
   \<and> 8 \<le> length (rows (series_frame months))
   \<and> (\<exists>train initial_test final_test.
         map_of (files (process_single_file stable_argsort iso_to_datetime default_splitter series_file 8
                          (series_world months))) (''data/split_data'', ''P1_M_train.csv'') = Some train
       \<and> map_of (files (process_single_file stable_argsort iso_to_datetime default_splitter series_file 8
                          (series_world months))) (''data/split_data'', ''P1_M_initial_test.csv'')
           = Some initial_test
       \<and> map_of (files (process_single_file stable_argsort iso_to_datetime default_splitter series_file 8
                          (series_world months))) (''data/split_data'', ''P1_M_final_test.csv'')
           = Some final_test
       \<and> rows train = map sorted_row (take 1 months_coerced)
       \<and> rows initial_test = map sorted_row (drop 1 months_coerced)
       \<and> length (rows final_test) + 4 = length (rows initial_test))"
proof -
  have l: "8 \<le> length (rows (series_frame months))"
    by (simp add: series_frame_shape months_def)
  have n: "length (rows (series_frame months)) = 9"
    by (simp add: series_frame_shape months_def)
  show ?thesis
    using C4_split_partitions_sorted_series[OF stable_is_argsort read_series_world sorted_months9 l refl,
        of default_splitter] stable_is_argsort l
    unfolding example_filenames n
    by (auto simp: sorted_frame_def take_map drop_map)
qed

text \<open>
  C1, as the code has it. The claim says that the final test slice is the last 4 rows of
  the sorted series. The code takes \<^verbatim>\<open>initial_test_df.iloc[:-4]\<close> (its comment: "Remove
  last 4 timestamps"), so for a group of n rows, n at least 8, the final test slice is the
  first 4 rows of the initial test slice, rows n-8 .. n-5 of the sorted series: a prefix of
  the initial test slice, not a suffix.
\<close>

theorem C1_final_test_is_first_half_of_initial_test:
  assumes "is_argsort argsort"
    and "read_csv w file_path = Inr df"
    and "sorted_by_start_date argsort to_datetime df = Inr (i, sdf)"
    and "8 \<le> length (rows df)"
    and "w' = process_single_file argsort to_datetime self file_path 8 w"
  shows "\<exists>initial_test final_test.
           map_of (files w') (initial_test_filename self file_path) = Some initial_test
         \<and> map_of (files w') (final_test_filename self file_path) = Some final_test
         \<and> length (rows final_test) = 4
         \<and> rows final_test = take 4 (rows initial_test)
         \<and> rows final_test = map (\<lambda>j. rows sdf ! (length (rows df) - 8 + j)) [0..<4]"
proof -
  have n: "length (rows sdf) = length (rows df)"
    using sorted_by_start_date_shape(2)[OF assms(1,3)] .
  have m: "8 \<le> length (rows sdf)" using n assms(4) by simp
  let ?xs = "drop (length (rows df) - 8) (rows sdf)"
  have l: "length ?xs = 8" using n m by simp
  have "take 4 ?xs = map (\<lambda>j. take 4 ?xs ! j) [0..<length (take 4 ?xs)]"
    by (simp only: map_nth)
  also have "\<dots> = map (\<lambda>j. rows sdf ! (length (rows df) - 8 + j)) [0..<4]"
    using l n m by (auto simp: min_def)
  finally have e: "take 4 ?xs = map (\<lambda>j. rows sdf ! (length (rows df) - 8 + j)) [0..<4]" .
  show ?thesis
    unfolding assms(5)
    using process_single_file_split[OF assms(2,3) m, of self] n m e
    by (simp add: iloc_upto_last_def iloc_last_def)
qed

theorem C1_nine_rows_witness:
  "is_argsort stable_argsort
   \<and> 8 \<le> length (rows (series_frame months))
   \<and> (\<exists>final_test.
         map_of (files (process_single_file stable_argsort iso_to_datetime default_splitter series_file 8
                      (series_world months))) (''data/split_data'', ''P1_M_final_test.csv'')
           = Some final_test
       \<and> rows final_test = map sorted_row [(''110'', Some 20240201), (''120'', Some 20240301),
                                            (''130'', Some 20240401), (''140'', Some 20240501)])"
proof -
  have l: "8 \<le> length (rows (series_frame months))"
    by (simp add: series_frame_shape months_def)
  have n: "length (rows (series_frame months)) = 9"
    by (simp add: series_frame_shape months_def)
  have e: "map (\<lambda>j. rows (sorted_frame months_coerced) ! (9 - 8 + j)) [0..<4]
      = map sorted_row [(''110'', Some 20240201), (''120'', Some 20240301),
                        (''130'', Some 20240401), (''140'', Some 20240501)]"
    by (simp add: sorted_frame_def months_coerced_def upt_rec)
  show ?thesis
    using C1_final_test_is_first_half_of_initial_test[OF stable_is_argsort read_series_world
        sorted_months9 l refl, of default_splitter] stable_is_argsort l
    unfolding example_filenames n e by auto
qed

text \<open>
  The claim C1 as stated fails on the eight months January to August 2024: the sorted
  series is the eight months in order, and the final test file holds January to April,
  not May to August.
\<close>

theorem C1_final_test_counterexample:
  "sorted_by_start_date stable_argsort iso_to_datetime (series_frame (take 8 months))
     = Inr (4, sorted_frame (take 8 months_coerced))
   \<and> map_of (files (process_single_file stable_argsort iso_to_datetime default_splitter series_file 8
                      (series_world (take 8 months)))) (''data/split_data'', ''P1_M_final_test.csv'')
       = Some (sorted_frame [(''100'', Some 20240101), (''110'', Some 20240201),
                             (''120'', Some 20240301), (''130'', Some 20240401)])
   \<and> map_of (files (process_single_file stable_argsort iso_to_datetime default_splitter series_file 8
                      (series_world (take 8 months)))) (''data/split_data'', ''P1_M_final_test.csv'')
       \<noteq> Some (sorted_frame [(''140'', Some 20240501), (''150'', Some 20240601),
                             (''160'', Some 20240701), (''170'', Some 20240801)])"
proof -
  have m: "8 \<le> length (rows (sorted_frame (take 8 months_coerced)))"
    by (simp add: sorted_frame_def months_coerced_def)
  have f: "map_of (files (process_single_file stable_argsort iso_to_datetime default_splitter series_file 8
                      (series_world (take 8 months)))) (final_test_filename default_splitter series_file)
       = Some (iloc_upto_last 4 (iloc_last 8 (sorted_frame (take 8 months_coerced))))"
    by (rule process_single_file_split(3)[OF read_series_world sorted_months8 m])
  have e: "iloc_upto_last 4 (iloc_last 8 (sorted_frame (take 8 months_coerced)))
       = sorted_frame [(''100'', Some 20240101), (''110'', Some 20240201),
                       (''120'', Some 20240301), (''130'', Some 20240401)]"
    by (simp add: iloc_upto_last_def iloc_last_def sorted_frame_def months_coerced_def)
  have ne: "sorted_frame [(''100'', Some 20240101), (''110'', Some 20240201),
                          (''120'', Some 20240301), (''130'', Some 20240401)]
       \<noteq> sorted_frame [(''140'', Some 20240501), (''150'', Some 20240601),
                          (''160'', Some 20240701), (''170'', Some 20240801)]"
    by (simp add: sorted_frame_def sorted_row_def)
  show ?thesis
    using sorted_months8 f e ne unfolding example_filenames by simp
qed

subsection \<open>Claims on the order of the sorted series\<close>




text \<open>
  C10. A row whose stored timestamp does not parse is coerced to null, and the null rows
  are sorted after every row with a timestamp (\<^verbatim>\<open>na_position='last'\<close>, the default).
  So for a group of n rows, n at least 8, of which k have a null timestamp, k at most 8:
  the train file holds no null row, and the initial test file ends with all k of them.
\<close>

theorem C10_null_timestamps_land_in_initial_test:
  assumes "is_argsort argsort"
    and "read_csv w file_path = Inr df"
    and "coerce_start_date to_datetime df = Inr (i, cdf)"
    and "8 \<le> length (rows df)"
    and "nulls = filter (\<lambda>r. start_date_key i r = None) (rows cdf)"
    and "length nulls \<le> 8"
    and "w' = process_single_file argsort to_datetime self file_path 8 w"
  shows "(\<forall>k<length (rows df). to_datetime (map (\<lambda>r. cell_at r i) (rows df)) k = None
            \<longrightarrow> rows cdf ! k \<in> set nulls)
       \<and> (\<exists>valid train initial_test pre.
             sorted_by_start_date argsort to_datetime df = Inr (i, cdf\<lparr>rows := valid @ nulls\<rparr>)
           \<and> (\<forall>r\<in>set valid. start_date_key i r \<noteq> None)
           \<and> map_of (files w') (train_filename self file_path) = Some train
           \<and> (\<forall>r\<in>set (rows train). start_date_key i r \<noteq> None)
           \<and> map_of (files w') (initial_test_filename self file_path) = Some initial_test
           \<and> rows initial_test = pre @ nulls
           \<and> (\<forall>r\<in>set pre. start_date_key i r \<noteq> None))"
proof (rule conjI)
  have len: "length (rows cdf) = length (rows df)"
    using coerce_start_date_shape(3)[OF assms(3)] .
  show "\<forall>k<length (rows df). to_datetime (map (\<lambda>r. cell_at r i) (rows df)) k = None
            \<longrightarrow> rows cdf ! k \<in> set nulls"
    using coerced_null_key[OF assms(3)] len by (auto simp: assms(5))
next
  have len: "length (rows cdf) = length (rows df)"
    using coerce_start_date_shape(3)[OF assms(3)] .
  from sort_values_decomp[OF assms(1), of "start_date_key i" "rows cdf"] obtain valid where
    v: "sort_values argsort (start_date_key i) (rows cdf) = valid @ nulls"
       "\<forall>r\<in>set valid. start_date_key i r \<noteq> None"
    unfolding assms(5) by blast
  define sdf where "sdf = cdf\<lparr>rows := valid @ nulls\<rparr>"
  have s: "sorted_by_start_date argsort to_datetime df = Inr (i, sdf)"
    using assms(3) v(1) by (simp add: sorted_by_start_date_def sdf_def)
  have n: "length valid + length nulls = length (rows df)"
    using sort_values_length[OF assms(1), of "start_date_key i" "rows cdf"] v(1) len by simp
  have m: "8 \<le> length (rows sdf)" using n assms(4) by (simp add: sdf_def)
  let ?d = "length (rows df) - 8"
  have d: "?d \<le> length valid" using n assms(6) by simp
  have tr: "rows (iloc_upto_last 8 sdf) = take ?d valid"
    using n d by (simp add: iloc_upto_last_def sdf_def)
  have it: "rows (iloc_last 8 sdf) = drop ?d valid @ nulls"
    using n d by (simp add: iloc_last_def sdf_def)
  have trv: "\<forall>r\<in>set (rows (iloc_upto_last 8 sdf)). start_date_key i r \<noteq> None"
    unfolding tr using v(2) by (meson in_set_takeD)
  have prev: "\<forall>r\<in>set (drop ?d valid). start_date_key i r \<noteq> None"
    using v(2) by (meson in_set_dropD)
  show "\<exists>valid train initial_test pre.
             sorted_by_start_date argsort to_datetime df = Inr (i, cdf\<lparr>rows := valid @ nulls\<rparr>)
           \<and> (\<forall>r\<in>set valid. start_date_key i r \<noteq> None)
           \<and> map_of (files w') (train_filename self file_path) = Some train
           \<and> (\<forall>r\<in>set (rows train). start_date_key i r \<noteq> None)
           \<and> map_of (files w') (initial_test_filename self file_path) = Some initial_test
           \<and> rows initial_test = pre @ nulls
           \<and> (\<forall>r\<in>set pre. start_date_key i r \<noteq> None)"
    unfolding assms(7)
    using s[unfolded sdf_def] v(2) process_single_file_split(1,2)[OF assms(2) s m, of self] trv it prev
    by blast
qed

theorem C10_gap_witness:
  "is_argsort stable_argsort
   \<and> coerce_start_date iso_to_datetime (series_frame months_with_gap)
       = Inr (4, sorted_frame months_with_gap_coerced)
   \<and> 8 \<le> length (rows (series_frame months_with_gap))
   \<and> length [sorted_row (''115'', None)] \<le> 8
   \<and> iso_to_datetime (map (\<lambda>r. cell_at r 4) (rows (series_frame months_with_gap))) 2 = None
   \<and> rows (sorted_frame months_with_gap_coerced) ! 2 = sorted_row (''115'', None)
   \<and> (\<exists>initial_test pre.
          map_of (files (process_single_file stable_argsort iso_to_datetime default_splitter series_file 8
                           (series_world months_with_gap)))
            (''data/split_data'', ''P1_M_initial_test.csv'') = Some initial_test
        \<and> rows initial_test = pre @ [sorted_row (''115'', None)])"
proof -
  have l: "8 \<le> length (rows (series_frame months_with_gap))"
    by (simp add: series_frame_shape months_with_gap_def)
  have k: "length [sorted_row (''115'', None)] \<le> 8" by simp
  have p: "iso_to_datetime (map (\<lambda>r. cell_at r 4) (rows (series_frame months_with_gap))) 2 = None"
    by (simp add: example_defs months_with_gap_def)
  note th = C10_null_timestamps_land_in_initial_test[OF stable_is_argsort read_series_world
      coerced_gap l nulls_gap[symmetric] k refl, of default_splitter]
  have a: "rows (sorted_frame months_with_gap_coerced) ! 2 = sorted_row (''115'', None)"
    using th p l by (auto simp: series_frame_shape months_with_gap_def)
  have b: "\<exists>initial_test pre.
          map_of (files (process_single_file stable_argsort iso_to_datetime default_splitter series_file 8
                           (series_world months_with_gap)))
            (''data/split_data'', ''P1_M_initial_test.csv'') = Some initial_test
        \<and> rows initial_test = pre @ [sorted_row (''115'', None)]"
    using th unfolding example_filenames by blast
  show ?thesis
    using stable_is_argsort coerced_gap l k p a b by blast
qed

section \<open>The decoder\<close>

lemma skip_ws_length: "length (skip_ws s) \<le> length s"
  by (simp add: skip_ws_def length_dropWhile_le)

lemma skip_ws_Cons_length: "skip_ws s = c # r \<Longrightarrow> length r < length s"
  using skip_ws_length[of s] by simp

text \<open>Every scanner takes at least one character when it succeeds.\<close>

lemma scanstring_shorter: "scanstring acc s = Some (k, r) \<Longrightarrow> length r < length s"
proof (induction s arbitrary: acc rule: length_induct)
  case (1 s)
  have IH: "\<And>a ys. scanstring a ys = Some (k, r) \<Longrightarrow> length ys < length s \<Longrightarrow> length r < length ys"
    using "1.IH" by blast
  show ?case
  proof (cases s)
    case Nil
    with "1.prems" show ?thesis by simp
  next
    case (Cons c s')
    show ?thesis
      using "1.prems"
      by (auto simp: Cons split: if_splits list.splits option.splits dest!: IH)
  qed
qed

lemma match_sign_length: "match_sign s = (l, r) \<Longrightarrow> length r \<le> length s"
  by (auto simp: match_sign_def split: list.splits if_splits)

lemma match_int_shorter: "match_int s = Some (l, r) \<Longrightarrow> length r < length s"
  by (auto simp: match_int_def less_Suc_eq_le length_dropWhile_le split: list.splits if_splits)

lemma match_frac_length: "match_frac s = (l, r) \<Longrightarrow> length r \<le> length s"
  by (auto simp: match_frac_def le_SucI length_dropWhile_le split: list.splits if_splits)

lemma match_exp_length: "match_exp s = (l, r) \<Longrightarrow> length r \<le> length s"
proof (cases s)
  case Nil
  then show "match_exp s = (l, r) \<Longrightarrow> length r \<le> length s"
    by (simp add: match_exp_def)
next
  case (Cons e t)
  have d: "\<And>xs. length (dropWhile is_digit xs) \<le> length xs"
    by (rule length_dropWhile_le)
  assume "match_exp s = (l, r)"
  then show "length r \<le> length s"
    unfolding Cons match_exp_def
    using d[of t] d[of "tl t"]
    by (cases t) (auto simp: Let_def split: if_splits)
qed

lemma match_number_shorter: "match_number s = Some (l, r) \<Longrightarrow> length r < length s"
proof -
  assume a: "match_number s = Some (l, r)"
  obtain sg s1 where 1: "match_sign s = (sg, s1)" by (cases "match_sign s")
  from a 1 obtain ip s2 where 2: "match_int s1 = Some (ip, s2)"
    by (auto simp: match_number_def split: option.splits)
  obtain fp s3 where 3: "match_frac s2 = (fp, s3)" by (cases "match_frac s2")
  obtain ep s4 where 4: "match_exp s3 = (ep, s4)" by (cases "match_exp s3")
  from a 1 2 3 4 have "r = s4" by (simp add: match_number_def)
  with match_sign_length[OF 1] match_int_shorter[OF 2] match_frac_length[OF 3] match_exp_length[OF 4]
  show ?thesis by simp
qed

declare parse_array.simps [simp del] parse_object.simps [simp del]

lemma scan_once_shorter:
  "scan_once depth s = Inr (v, r) \<Longrightarrow> length r < length s"
  "parse_array depth s acc = Inr (vs, r) \<Longrightarrow> length r < length s"
  "parse_object depth s pacc = Inr (ps, r) \<Longrightarrow> length r < length s"
proof (induction depth s and depth s acc and depth s pacc arbitrary: v r and vs r and ps r
       rule: scan_once_parse_array_parse_object.induct)
  case 1
  then show ?case by simp
next
  case (2 depth c s)
  show ?case
  proof (cases "c = CHR 0x22")
    case True
    with "2.prems" show ?thesis
      by (auto split: option.splits dest!: scanstring_shorter)
  next
    case nq: False
    show ?thesis
    proof (cases "c = CHR ''{''")
      case True
      show ?thesis
      proof (cases "depth = 0")
        case True
        with nq \<open>c = CHR ''{''\<close> "2.prems" show ?thesis by simp
      next
        case nz: False
        show ?thesis
        proof (cases "skip_ws s")
          case Nil
          with nq True nz "2.prems" show ?thesis by simp
        next
          case (Cons c1 r1)
          have l: "length r1 < length s" using skip_ws_Cons_length[OF Cons] .
          show ?thesis
            using nq True nz Cons "2.prems" l "2.IH"(1)[OF nq True nz Cons]
            by (auto split: if_splits sum.splits)
        qed
      qed
    next
      case nb: False
      show ?thesis
      proof (cases "c = CHR ''[''")
        case True
        show ?thesis
        proof (cases "depth = 0")
          case True
          with nq nb \<open>c = CHR ''[''\<close> "2.prems" show ?thesis by simp
        next
          case nz: False
          show ?thesis
          proof (cases "skip_ws s")
            case Nil
            with nq nb True nz "2.prems" show ?thesis by simp
          next
            case (Cons c1 r1)
            have l: "length (c1 # r1) \<le> length s" using skip_ws_length[of s] Cons by simp
            show ?thesis
              using nq nb True nz Cons "2.prems" l "2.IH"(2)[OF nq nb True nz Cons]
              by (auto split: if_splits sum.splits)
          qed
        qed
      next
        case False
        with nq nb "2.prems" show ?thesis
          by (auto split: if_splits option.splits sum.splits dest!: match_number_shorter)
      qed
    qed
  qed
next
  case (3 depth s acc)
  note p = "3.prems"[unfolded parse_array.simps[of depth s acc]]
  from p obtain v r0 where s: "scan_once depth s = Inr (v, r0)" and g: "length r0 < length s"
    by (auto split: sum.splits if_splits)
  show ?case
  proof (cases "skip_ws r0")
    case Nil
    with s g p show ?thesis by simp
  next
    case (Cons c r1)
    have l: "length r1 < length r0" using skip_ws_Cons_length[OF Cons] .
    have l2: "length (skip_ws r1) \<le> length r1" by (rule skip_ws_length)
    show ?thesis
      using s g Cons p l l2 "3.IH"(2)[OF s refl g Cons]
      by (auto split: if_splits)
  qed
next
  case (4 depth s pacc)
  note p = "4.prems"[unfolded parse_object.simps[of depth s pacc]]
  from p obtain key r0 where k: "scanstring [] s = Some (key, r0)"
    by (auto split: option.splits)
  from p k obtain r1 where c: "skip_ws r0 = CHR '':'' # r1"
    by (auto split: list.splits if_splits)
  from p k c obtain v r2 where s: "scan_once depth (skip_ws r1) = Inr (v, r2)"
    and g: "length r2 < length s"
    by (auto split: sum.splits if_splits)
  show ?case
  proof (cases "skip_ws r2")
    case Nil
    with k c s g p show ?thesis by simp
  next
    case (Cons c2 r3)
    have l: "length r3 < length r2" using skip_ws_Cons_length[OF Cons] .
    show ?thesis
    proof (cases "c2 = CHR ''}''")
      case True
      with k c s g Cons p l show ?thesis by simp
    next
      case nc: False
      show ?thesis
      proof (cases "skip_ws r3")
        case Nil
        with k c s g Cons nc p show ?thesis by (simp split: if_splits)
      next
        case c3: (Cons c3 r4)
        have l3: "length r4 < length r3" using skip_ws_Cons_length[OF c3] .
        show ?thesis
          using k c s g Cons nc c3 p l l3
            "4.IH"(2)[OF k refl c _ s refl g Cons nc _ c3]
          by (auto split: if_splits)
      qed
    qed
  qed
qed

text \<open>
  So the length tests of the two loops never fail: the loops are the decoder's own,
  without them.
\<close>

lemma parse_array_unguarded:
  "parse_array depth s acc =
     (case scan_once depth s of
        Inl e \<Rightarrow> Inl e
      | Inr (v, r) \<Rightarrow>
          (case skip_ws r of
             [] \<Rightarrow> Inl JSONDecodeError
           | c # r1 \<Rightarrow>
               if c = CHR '']'' then Inr (acc @ [v], r1)
               else if c = CHR '','' then parse_array depth (skip_ws r1) (acc @ [v])
               else Inl JSONDecodeError))"
  by (subst parse_array.simps) (auto split: sum.splits dest: scan_once_shorter(1))

lemma parse_object_unguarded:
  "parse_object depth s acc =
     (case scanstring [] s of
        None \<Rightarrow> Inl JSONDecodeError
      | Some (key, r) \<Rightarrow>
          (case skip_ws r of
             [] \<Rightarrow> Inl JSONDecodeError
           | c # r1 \<Rightarrow>
               if c \<noteq> CHR '':'' then Inl JSONDecodeError
               else
                 (case scan_once depth (skip_ws r1) of
                    Inl e \<Rightarrow> Inl e
                  | Inr (v, r2) \<Rightarrow>
                      (case skip_ws r2 of
                         [] \<Rightarrow> Inl JSONDecodeError
                       | c2 # r3 \<Rightarrow>
                           if c2 = CHR ''}'' then Inr (acc @ [(key, v)], r3)
                           else if c2 = CHR '','' then
                             (case skip_ws r3 of
                                [] \<Rightarrow> Inl JSONDecodeError
                              | c3 # r4 \<Rightarrow>
                                  if c3 = CHR 0x22 then parse_object depth r4 (acc @ [(key, v)])
                                  else Inl JSONDecodeError)
                           else Inl JSONDecodeError))))"
proof (cases "scanstring [] s")
  case None
  then show ?thesis by (subst parse_object.simps) simp
next
  case (Some kr)
  obtain key r where kr: "kr = (key, r)" by (cases kr)
  show ?thesis
  proof (cases "skip_ws r")
    case Nil
    with Some kr show ?thesis by (subst parse_object.simps) simp
  next
    case (Cons c r1)
    show ?thesis
    proof (cases "scan_once depth (skip_ws r1)")
      case (Inl e)
      with Some kr Cons show ?thesis by (subst parse_object.simps) simp
    next
      case v: (Inr vr)
      obtain v r2 where vr: "vr = (v, r2)" by (cases vr)
      have "length r2 < length (skip_ws r1)" using scan_once_shorter(1) v vr by blast
      also have "\<dots> \<le> length r1" by (rule skip_ws_length)
      also have "\<dots> < length r" using skip_ws_Cons_length[OF Cons] .
      also have "\<dots> < length s" using scanstring_shorter Some kr by blast
      finally have g: "length r2 < length s" .
      show ?thesis
        using Some kr Cons v vr g
        by (subst parse_object.simps) simp
    qed
  qed
qed

lemma scanstring_plain:
  "list_all plain_char t \<Longrightarrow> scanstring acc (t @ CHR 0x22 # rest) = Some (acc @ t, rest)"
  by (induction t arbitrary: acc) (auto simp: plain_char_def)

lemma replace_quotes_plain: "list_all plain_char t \<Longrightarrow> replace_quotes t = t"
  by (induction t) (auto simp: replace_quotes_def plain_char_def)

lemma replace_quotes_period_text:
  assumes "q = CHR 0x27 \<or> q = CHR 0x22"
    and "list_all plain_char tag" and "list_all plain_char t" and "list_all plain_char d"
  shows "replace_quotes (period_text q tag t d) = period_text (CHR 0x22) tag t d"
proof -
  have e: "\<And>xs ys. replace_quotes (xs @ ys) = replace_quotes xs @ replace_quotes ys"
    by (simp add: replace_quotes_def)
  have q: "replace_quotes [q] = [CHR 0x22]"
    using assms(1) by (auto simp: replace_quotes_def)
  have c: "replace_quotes ''{'' = ''{''" "replace_quotes ''type'' = ''type''"
    "replace_quotes '': {'' = '': {''" "replace_quotes '': '' = '': ''"
    "replace_quotes ''}, '' = ''}, ''" "replace_quotes ''start_date'' = ''start_date''"
    "replace_quotes ''}}'' = ''}}''"
    by (simp_all add: replace_quotes_def)
  show ?thesis
    unfolding period_text_def e q c
      replace_quotes_plain[OF assms(2)] replace_quotes_plain[OF assms(3)] replace_quotes_plain[OF assms(4)]
    by (rule refl)
qed




text \<open>More digits than \<^verbatim>\<open>int\<close> converts, and more nesting than the interpreter allows.\<close>

lemma scan_once_digits:
  assumes "is_digit c" "c \<noteq> CHR ''0''" "int_max_str_digits \<le> n"
  shows "scan_once depth (replicate (Suc n) c) = Inl ValueError"
proof -
  have nd: "c \<noteq> CHR 0x22" "c \<noteq> CHR ''{''" "c \<noteq> CHR ''[''" "c \<noteq> CHR ''n''" "c \<noteq> CHR ''t''"
    "c \<noteq> CHR ''f''" "c \<noteq> CHR ''-''" "c \<noteq> CHR ''.''" "c \<noteq> CHR ''e''" "c \<noteq> CHR ''E''"
    using assms(1) by (auto simp: is_digit_def)
  have m: "match_number (replicate (Suc n) c) = Some (replicate (Suc n) c, [])"
    using assms(1,2) nd
    by (cases n)
       (simp_all add: match_number_def match_sign_def match_int_def match_frac_def match_exp_def
          takeWhile_replicate dropWhile_replicate)
  have p: "py_number (replicate (Suc n) c) = Inl ValueError"
    using assms nd by (simp add: py_number_def is_float_def)
  show ?thesis
    using nd m p by (simp add: starts_with_def)
qed

lemma json_loads_digits:
  assumes "is_digit c" "c \<noteq> CHR ''0''" "int_max_str_digits < n"
  shows "json_loads (replace_quotes (replicate n c)) = Inl ValueError"
proof -
  obtain k where n: "n = Suc k" and k: "int_max_str_digits \<le> k"
    using assms(3) by (cases n) auto
  have q: "c \<noteq> CHR 0x27" "\<not> is_ws c"
    using assms(1) by (auto simp: is_digit_def is_ws_def)
  have "replace_quotes (replicate n c) = replicate n c"
    using q by (simp add: replace_quotes_def)
  moreover have "skip_ws (replicate n c) = replicate n c"
    using q by (simp add: skip_ws_def dropWhile_replicate)
  ultimately show ?thesis
    using scan_once_digits[OF assms(1,2) k] by (simp add: json_loads_def n)
qed



section \<open>The period parser\<close>

text \<open>The decoder on a period string of the form, for payloads of plain characters.\<close>

lemma json_loads_period_text:
  assumes "list_all plain_char tag" "list_all plain_char t" "list_all plain_char d"
  shows "json_loads (period_text (CHR 0x22) tag t d)
           = Inr (PyDict [(''type'', PyDict [(tag, PyStr t)]), (''start_date'', PyDict [(tag, PyStr d)])])"
  unfolding period_text_def json_loads_def
  using assms
  by (simp add: skip_ws_def is_ws_def recursion_limit_def parse_object_unguarded scanstring_plain)

lemma parse_period_try_period_text:
  assumes "q = CHR 0x27 \<or> q = CHR 0x22"
    and "list_all plain_char tag" and "list_all plain_char t" and "list_all plain_char d"
  shows "parse_period_try (PyStr (period_text q tag t d))
           = Inr (if tag = ''S'' then (PyStr t, PyStr d) else (PyNone, PyNone))"
  by (simp add: parse_period_try_def replace_quotes_period_text[OF assms]
      json_loads_period_text[OF assms(2,3,4)] py_get_def dict_get_def)



text \<open>The \<^verbatim>\<open>try\<close> body on a text that decodes to a mapping: the two lookups.\<close>

lemma parse_period_try_decoded:
  assumes "json_loads (replace_quotes s) = Inr (PyDict pairs)"
  shows "parse_period_try (PyStr s) =
     (case dict_get pairs ''type'' (PyDict []) of
        PyDict mt \<Rightarrow>
          (case dict_get pairs ''start_date'' (PyDict []) of
             PyDict md \<Rightarrow> Inr (dict_get mt ''S'' PyNone, dict_get md ''S'' PyNone)
           | _ \<Rightarrow> Inl AttributeError)
      | _ \<Rightarrow> Inl AttributeError)"
  using assms by (simp add: parse_period_try_def py_get_def split: pyobj.splits)


lemma dict_get_missing: "k \<notin> fst ` set pairs \<Longrightarrow> dict_get pairs k dflt = dflt"
proof -
  assume "k \<notin> fst ` set pairs"
  then have "map_of (rev pairs) k = None"
    by (simp add: map_of_eq_None_iff)
  then show ?thesis by (simp add: dict_get_def)
qed

lemmas decode_defs = parse_period_def parse_period_try_def json_loads_def replace_quotes_def
  skip_ws_def is_ws_def parse_object_unguarded parse_array_unguarded py_get_def dict_get_def
  starts_with_def match_number_def match_sign_def match_int_def match_frac_def match_exp_def
  is_digit_def backslash_def period_text_def plain_char_def recursion_limit_def
  py_number_def is_float_def int_max_str_digits_def

lemma not_json: "parse_period_try (PyStr ''not json'') = Inl JSONDecodeError"
  by (simp add: decode_defs)



lemma loads_only_start_date:
  "json_loads (replace_quotes ''{'start_date': {'S': '2024-01-01'}}'')
     = Inr (PyDict [(''start_date'', PyDict [(''S'', PyStr ''2024-01-01'')])])"
  by (simp add: decode_defs)

lemma loads_only_type:
  "json_loads (replace_quotes ''{'type': {'S': 'M'}}'') = Inr (PyDict [(''type'', PyDict [(''S'', PyStr ''M'')])])"
  by (simp add: decode_defs)


subsection \<open>Claims on the period parser\<close>

text \<open>
  C2, as the code has it. The claim says that any parse failure, a missing key among
  \<^verbatim>\<open>type\<close> and \<^verbatim>\<open>start_date\<close> included, gives the pair (null, null). In the code each
  field is looked up on its own with \<^verbatim>\<open>.get(key, {}).get('S', None)\<close>, and the
  \<^verbatim>\<open>except\<close> clause catches \<open>JSONDecodeError\<close> and \<open>AttributeError\<close>. So: whenever the
  \<^verbatim>\<open>try\<close> body raises one of these two (the text does not decode, or a value looked into
  is not a mapping), the pair is (null, null) and a warning is logged; a pair with exactly
  one null field is always what the \<^verbatim>\<open>try\<close> body returned, with nothing logged. When the
  decoded mapping has no key \<^verbatim>\<open>type\<close> and holds a mapping \<open>m\<close> under \<^verbatim>\<open>start_date\<close>, the
  result is exactly \<^verbatim>\<open>(None, m.get('S'))\<close>; when it has no key \<^verbatim>\<open>start_date\<close> and holds
  a mapping \<open>m\<close> under \<^verbatim>\<open>type\<close>, the result is exactly \<^verbatim>\<open>(m.get('S'), None)\<close>; neither
  logs anything.
\<close>

theorem C2_parse_failure_is_all_or_nothing:
  "(parse_period_try p = Inl e \<and> (e = JSONDecodeError \<or> e = AttributeError) \<longrightarrow>
      parse_period p lg = (Inr (PyNone, PyNone), lg @ [(WARNING, Error_parsing_period p e)]))
   \<and> (fst (parse_period p lg) = Inr (t, d) \<and> (t = PyNone) \<noteq> (d = PyNone) \<longrightarrow>
        parse_period_try p = Inr (t, d) \<and> snd (parse_period p lg) = lg)
   \<and> (json_loads (replace_quotes s) = Inr (PyDict pairs) \<and> ''type'' \<notin> fst ` set pairs
        \<and> dict_get pairs ''start_date'' (PyDict []) = PyDict m \<longrightarrow>
        parse_period (PyStr s) lg = (Inr (PyNone, dict_get m ''S'' PyNone), lg))
   \<and> (json_loads (replace_quotes s) = Inr (PyDict pairs) \<and> ''start_date'' \<notin> fst ` set pairs
        \<and> dict_get pairs ''type'' (PyDict []) = PyDict m \<longrightarrow>
        parse_period (PyStr s) lg = (Inr (dict_get m ''S'' PyNone, PyNone), lg))"
proof (intro conjI impI)
  assume "parse_period_try p = Inl e \<and> (e = JSONDecodeError \<or> e = AttributeError)"
  then show "parse_period p lg = (Inr (PyNone, PyNone), lg @ [(WARNING, Error_parsing_period p e)])"
    by (auto simp: parse_period_def)
next
  assume a: "fst (parse_period p lg) = Inr (t, d) \<and> (t = PyNone) \<noteq> (d = PyNone)"
  show "parse_period_try p = Inr (t, d)"
  proof (cases "parse_period_try p")
    case (Inl x)
    with a show ?thesis by (auto simp: parse_period_def split: if_splits)
  next
    case (Inr r)
    with a show ?thesis by (simp add: parse_period_def)
  qed
next
  assume a: "fst (parse_period p lg) = Inr (t, d) \<and> (t = PyNone) \<noteq> (d = PyNone)"
  show "snd (parse_period p lg) = lg"
  proof (cases "parse_period_try p")
    case (Inl x)
    with a show ?thesis by (auto simp: parse_period_def split: if_splits)
  next
    case (Inr r)
    with a show ?thesis by (simp add: parse_period_def)
  qed
next
  assume a: "json_loads (replace_quotes s) = Inr (PyDict pairs) \<and> ''type'' \<notin> fst ` set pairs
        \<and> dict_get pairs ''start_date'' (PyDict []) = PyDict m"
  then have g: "dict_get pairs ''type'' (PyDict []) = PyDict []"
    by (simp add: dict_get_missing)
  have n: "dict_get [] ''S'' PyNone = PyNone"
    by (simp add: dict_get_def)
  from a have l: "json_loads (replace_quotes s) = Inr (PyDict pairs)" by simp
  show "parse_period (PyStr s) lg = (Inr (PyNone, dict_get m ''S'' PyNone), lg)"
    using a g n by (simp add: parse_period_def parse_period_try_decoded[OF l])
next
  assume a: "json_loads (replace_quotes s) = Inr (PyDict pairs) \<and> ''start_date'' \<notin> fst ` set pairs
        \<and> dict_get pairs ''type'' (PyDict []) = PyDict m"
  then have g: "dict_get pairs ''start_date'' (PyDict []) = PyDict []"
    by (simp add: dict_get_missing)
  have n: "dict_get [] ''S'' PyNone = PyNone"
    by (simp add: dict_get_def)
  from a have l: "json_loads (replace_quotes s) = Inr (PyDict pairs)" by simp
  show "parse_period (PyStr s) lg = (Inr (dict_get m ''S'' PyNone, PyNone), lg)"
    using a g n by (simp add: parse_period_def parse_period_try_decoded[OF l])
qed

theorem C2_all_or_nothing_witness:
  "parse_period_try (PyStr ''not json'') = Inl JSONDecodeError
   \<and> parse_period (PyStr ''not json'') []
       = (Inr (PyNone, PyNone), [(WARNING, Error_parsing_period (PyStr ''not json'') JSONDecodeError)])
   \<and> json_loads (replace_quotes ''{'start_date': {'S': '2024-01-01'}}'')
       = Inr (PyDict [(''start_date'', PyDict [(''S'', PyStr ''2024-01-01'')])])
   \<and> ''type'' \<notin> fst ` set [(''start_date'', PyDict [(''S'', PyStr ''2024-01-01'')])]
   \<and> parse_period (PyStr ''{'start_date': {'S': '2024-01-01'}}'') []
       = (Inr (PyNone, PyStr ''2024-01-01''), [])
   \<and> parse_period_try (PyStr ''{'start_date': {'S': '2024-01-01'}}'')
       = Inr (PyNone, PyStr ''2024-01-01'')
   \<and> json_loads (replace_quotes ''{'type': {'S': 'M'}}'')
       = Inr (PyDict [(''type'', PyDict [(''S'', PyStr ''M'')])])
   \<and> ''start_date'' \<notin> fst ` set [(''type'', PyDict [(''S'', PyStr ''M'')])]
   \<and> parse_period (PyStr ''{'type': {'S': 'M'}}'') [] = (Inr (PyStr ''M'', PyNone), [])"
proof -
  let ?d = "[(''start_date'', PyDict [(''S'', PyStr ''2024-01-01'')])]"
  let ?t = "[(''type'', PyDict [(''S'', PyStr ''M'')])]"
  have k1: "''type'' \<notin> fst ` set ?d" by simp
  have k2: "''start_date'' \<notin> fst ` set ?t" by simp
  have g1: "dict_get ?d ''start_date'' (PyDict []) = PyDict [(''S'', PyStr ''2024-01-01'')]"
    "dict_get [(''S'', PyStr ''2024-01-01'')] ''S'' PyNone = PyStr ''2024-01-01''"
    by (simp_all add: dict_get_def)
  have g2: "dict_get ?t ''type'' (PyDict []) = PyDict [(''S'', PyStr ''M'')]"
    "dict_get [(''S'', PyStr ''M'')] ''S'' PyNone = PyStr ''M''"
    by (simp_all add: dict_get_def)
  have 1: "parse_period (PyStr ''{'start_date': {'S': '2024-01-01'}}'') []
       = (Inr (PyNone, PyStr ''2024-01-01''), [])"
    using C2_parse_failure_is_all_or_nothing[of "PyStr ''not json''" JSONDecodeError "[]" PyNone PyNone
        "''{'start_date': {'S': '2024-01-01'}}''" ?d "[(''S'', PyStr ''2024-01-01'')]"]
      loads_only_start_date k1 g1
    by simp
  have 2: "parse_period_try (PyStr ''{'start_date': {'S': '2024-01-01'}}'')
       = Inr (PyNone, PyStr ''2024-01-01'')"
    using C2_parse_failure_is_all_or_nothing[of "PyStr ''{'start_date': {'S': '2024-01-01'}}''"
        JSONDecodeError "[]" PyNone "PyStr ''2024-01-01''" "''not json''" "[]" "[]"] 1
    by simp
  have 3: "parse_period (PyStr ''{'type': {'S': 'M'}}'') [] = (Inr (PyStr ''M'', PyNone), [])"
    using C2_parse_failure_is_all_or_nothing[of "PyStr ''not json''" JSONDecodeError "[]" PyNone PyNone
        "''{'type': {'S': 'M'}}''" ?t "[(''S'', PyStr ''M'')]"]
      loads_only_type k2 g2
    by simp
  have 4: "parse_period (PyStr ''not json'') []
       = (Inr (PyNone, PyNone), [(WARNING, Error_parsing_period (PyStr ''not json'') JSONDecodeError)])"
    using C2_parse_failure_is_all_or_nothing[of "PyStr ''not json''" JSONDecodeError "[]" PyNone PyNone
        "''not json''" "[]" "[]"] not_json
    by simp
  show ?thesis
    using 1 2 3 4 not_json loads_only_start_date loads_only_type k1 k2 by simp
qed

text \<open>
  The claim C2 as stated fails on a period with the key \<^verbatim>\<open>type\<close> missing: the pair has
  exactly one null, and no warning is logged. It also fails on a text the decoder refuses
  with an exception that is not caught, an integer literal of 4301 digits: no pair is
  returned at all.
\<close>

theorem C2_partial_pair_counterexample:
  "parse_period (PyStr ''{'start_date': {'S': '2024-01-01'}}'') []
     = (Inr (PyNone, PyStr ''2024-01-01''), [])
   \<and> parse_period (PyStr (replicate 4301 (CHR ''7''))) [] = (Inl ValueError, [])"
proof
  show "parse_period (PyStr ''{'start_date': {'S': '2024-01-01'}}'') []
     = (Inr (PyNone, PyStr ''2024-01-01''), [])"
    by (simp add: decode_defs)
  have "json_loads (replace_quotes (replicate 4301 (CHR ''7''))) = Inl ValueError"
    by (rule json_loads_digits) (simp_all add: is_digit_def int_max_str_digits_def)
  then show "parse_period (PyStr (replicate 4301 (CHR ''7''))) [] = (Inl ValueError, [])"
    by (simp add: parse_period_def parse_period_try_def)
qed

text \<open>
  C5, as the code has it. The claim says that every period string of the form, under any
  type tag and with any payloads, parses to (T, D). The code reads the tag \<^verbatim>\<open>'S'\<close> only
  and turns every single quote of the text into a double quote before decoding. So: for
  the tag \<^verbatim>\<open>S\<close>, either quote character, and payloads T and D without a quote of either
  kind, a backslash or a control character, \<^verbatim>\<open>_parse_period\<close> returns exactly (T, D) and
  logs nothing.
\<close>

theorem C5_period_of_the_form_parses:
  assumes "q = CHR 0x27 \<or> q = CHR 0x22"
    and "list_all plain_char T" and "list_all plain_char D"
  shows "parse_period (PyStr (period_text q ''S'' T D)) lg = (Inr (PyStr T, PyStr D), lg)"
proof -
  have s: "list_all plain_char ''S''" by (simp add: plain_char_def)
  show ?thesis
    using parse_period_try_period_text[OF assms(1) s assms(2,3)]
    by (simp add: parse_period_def)
qed

theorem C5_both_quotings_witness:
  "list_all plain_char ''M'' \<and> list_all plain_char ''2024-01-01''
   \<and> period_text (CHR 0x27) ''S'' ''M'' ''2024-01-01''
       = ''{'type': {'S': 'M'}, 'start_date': {'S': '2024-01-01'}}''
   \<and> parse_period (PyStr ''{'type': {'S': 'M'}, 'start_date': {'S': '2024-01-01'}}'') []
       = (Inr (PyStr ''M'', PyStr ''2024-01-01''), [])
   \<and> parse_period (PyStr (period_text (CHR 0x22) ''S'' ''M'' ''2024-01-01'')) []
       = (Inr (PyStr ''M'', PyStr ''2024-01-01''), [])"
proof -
  have p: "list_all plain_char ''M''" "list_all plain_char ''2024-01-01''"
    by (simp_all add: plain_char_def)
  have t: "period_text (CHR 0x27) ''S'' ''M'' ''2024-01-01''
       = ''{'type': {'S': 'M'}, 'start_date': {'S': '2024-01-01'}}''"
    by (simp add: period_text_def)
  show ?thesis
    using C5_period_of_the_form_parses[OF disjI1[OF refl] p, of "[]"]
      C5_period_of_the_form_parses[OF disjI2[OF refl] p, of "[]"] p t
    by simp
qed

text \<open>
  The claim C5 as stated fails: under the tag \<^verbatim>\<open>N\<close> the result is (null, null); a
  double-quoted period whose type is \<^verbatim>\<open>Q1'24\<close> is a valid JSON document and still gives
  (null, null), its apostrophe having become a quote; a payload with a tab character does
  not decode; and a payload with a backslash escape comes back decoded, not as written.
\<close>

theorem C5_tag_and_quote_counterexample:
  "parse_period (PyStr ''{'type': {'N': 'M'}, 'start_date': {'N': '2024-01-01'}}'') []
     = (Inr (PyNone, PyNone), [])
   \<and> json_loads (period_text (CHR 0x22) ''S'' ''Q1'24'' ''2024-01-01'')
       = Inr (PyDict [(''type'', PyDict [(''S'', PyStr ''Q1'24'')]),
                      (''start_date'', PyDict [(''S'', PyStr ''2024-01-01'')])])
   \<and> fst (parse_period (PyStr (period_text (CHR 0x22) ''S'' ''Q1'24'' ''2024-01-01'')) [])
       = Inr (PyNone, PyNone)
   \<and> fst (parse_period (PyStr (period_text (CHR 0x27) ''S'' [CHR ''M'', CHR 0x09] ''2024-01-01'')) [])
       = Inr (PyNone, PyNone)
   \<and> fst (parse_period (PyStr (period_text (CHR 0x27) ''S'' [CHR ''M'', CHR 0x5C, CHR ''t''] ''2024-01-01'')) [])
       = Inr (PyStr [CHR ''M'', CHR 0x09], PyStr ''2024-01-01'')"
  by (simp add: decode_defs)




section \<open>Schema validation\<close>

lemma missing_iff:
  "(\<not> list_all (\<lambda>col. col \<in> set (columns df)) required_columns)
     \<longleftrightarrow> (\<exists>c\<in>set required_columns. c \<notin> set (columns df))"
  by (simp add: list_all_iff)

text \<open>
  C9, as the code has it. The claim names the required columns \<^verbatim>\<open>entity_id\<close>,
  \<^verbatim>\<open>period\<close>, \<^verbatim>\<open>report_type\<close>, \<^verbatim>\<open>value\<close>; the code requires \<^verbatim>\<open>partner_id\<close>,
  \<^verbatim>\<open>period\<close>, \<^verbatim>\<open>report_type\<close>, \<^verbatim>\<open>value\<close>. With these: validation of a frame that
  was read raises (a \<open>ValueError\<close>, logged and raised again) if and only if one of the
  four is not among its columns, and returns a frame if and only if all four are; and
  when one is missing the constructor of the preprocessor ends with that error, having
  logged it and nothing else: no row was parsed, no object is left.
\<close>

theorem C9_schema_validation:
  "required_columns = [''partner_id'', ''period'', ''report_type'', ''value'']
   \<and> (fst (load_and_validate_data (Inr df) path lg) = Inl ValueError
        \<longleftrightarrow> (\<exists>c\<in>set required_columns. c \<notin> set (columns df)))
   \<and> ((\<exists>loaded. fst (load_and_validate_data (Inr df) path lg) = Inr loaded)
        \<longleftrightarrow> (\<forall>c\<in>set required_columns. c \<in> set (columns df)))
   \<and> ((\<exists>c\<in>set required_columns. c \<notin> set (columns df)) \<longrightarrow>
        init_data_preprocessor to_datetime (Inr df) path dir lg
          = (Inl ValueError, lg @ [(ERROR, Error_loading_data ValueError)]))"
proof (intro conjI)
  show "required_columns = [''partner_id'', ''period'', ''report_type'', ''value'']"
    by (simp add: required_columns_def)
  show "fst (load_and_validate_data (Inr df) path lg) = Inl ValueError
        \<longleftrightarrow> (\<exists>c\<in>set required_columns. c \<notin> set (columns df))"
    unfolding load_and_validate_data_def missing_iff[symmetric] by simp
  show "(\<exists>loaded. fst (load_and_validate_data (Inr df) path lg) = Inr loaded)
        \<longleftrightarrow> (\<forall>c\<in>set required_columns. c \<in> set (columns df))"
    unfolding load_and_validate_data_def by (simp add: list_all_iff)
  show "(\<exists>c\<in>set required_columns. c \<notin> set (columns df)) \<longrightarrow>
        init_data_preprocessor to_datetime (Inr df) path dir lg
          = (Inl ValueError, lg @ [(ERROR, Error_loading_data ValueError)])"
    unfolding missing_iff[symmetric]
    by (simp add: init_data_preprocessor_def load_and_validate_data_def)
qed

theorem C9_missing_value_column_witness:
  "(\<exists>c\<in>set required_columns. c \<notin> set [''partner_id'', ''period'', ''report_type''])
   \<and> fst (load_and_validate_data
            (Inr \<lparr>columns = [''partner_id'', ''period'', ''report_type''], rows = []\<rparr>)
            ''data/raw/raw_data.csv'' []) = Inl ValueError
   \<and> init_data_preprocessor iso_to_datetime
        (Inr \<lparr>columns = [''partner_id'', ''period'', ''report_type''], rows = []\<rparr>)
        ''data/raw/raw_data.csv'' ''data/processed'' []
       = (Inl ValueError, [(ERROR, Error_loading_data ValueError)])
   \<and> (\<exists>loaded. fst (load_and_validate_data
            (Inr \<lparr>columns = [''value'', ''report_type'', ''period'', ''partner_id'', ''note''], rows = []\<rparr>)
            ''data/raw/raw_data.csv'' []) = Inr loaded)"
proof -
  have m: "\<exists>c\<in>set required_columns. c \<notin> set [''partner_id'', ''period'', ''report_type'']"
    by (simp add: required_columns_def)
  have a: "\<forall>c\<in>set required_columns. c \<in> set [''value'', ''report_type'', ''period'', ''partner_id'', ''note'']"
    by (simp add: required_columns_def)
  show ?thesis
    using C9_schema_validation[of "\<lparr>columns = [''partner_id'', ''period'', ''report_type''], rows = []\<rparr>"
        "''data/raw/raw_data.csv''" "[]" iso_to_datetime "''data/processed''"]
      C9_schema_validation[of "\<lparr>columns = [''value'', ''report_type'', ''period'', ''partner_id'', ''note''], rows = []\<rparr>"
        "''data/raw/raw_data.csv''" "[]" iso_to_datetime "''data/processed''"]
      m a
    by simp
qed

text \<open>
  The claim C9 as stated fails on a file whose columns are the four the claim lists:
  none of them is absent, and validation raises, because \<^verbatim>\<open>partner_id\<close> is.
\<close>

theorem C9_entity_id_counterexample:
  "list_all (\<lambda>c. c \<in> set [''entity_id'', ''period'', ''report_type'', ''value''])
     [''entity_id'', ''period'', ''report_type'', ''value'']
   \<and> load_and_validate_data
        (Inr \<lparr>columns = [''entity_id'', ''period'', ''report_type'', ''value''],
              rows = [[PyStr ''P1'', PyStr ''{'type': {'S': 'M'}, 'start_date': {'S': '2024-01-01'}}'',
                       PyStr ''rev'', PyNum ''100'']]\<rparr>)
        ''data/raw/raw_data.csv'' []
       = (Inl ValueError, [(ERROR, Error_loading_data ValueError)])"
  by (simp add: load_and_validate_data_def required_columns_def)

end
